theory Spec2Isabelle
  imports Main "HOL-Library.AList" "HOL-Library.Sublist"
begin

section \<open>Aurora sectorfile installer: model of \<^verbatim>\<open>src/installer.py\<close>\<close>

text \<open>
  The installer works on a filesystem. The model keeps the filesystem as a tree and a
  path as the list of its components below the filesystem root, so that
  \<^verbatim>\<open>os.path.join(p, n)\<close> is \<open>p @ [n]\<close>, \<^verbatim>\<open>os.path.dirname\<close> is \<open>butlast\<close> and
  \<^verbatim>\<open>os.path.abspath\<close> is the identity. Names are compared exactly (a case-sensitive
  filesystem). Strings are byte strings; \<^verbatim>\<open>str.lower\<close> acts on the ASCII letters.

  What the model leaves out: every path, also the target of a link, is absolute; the
  metadata of an entry (times, link count, permissions) is not kept; a call of the
  operating system happens entirely or not at all (a removal of a tree or a copy that
  fails half way is not modelled); \<^verbatim>\<open>os.walk\<close> and \<^verbatim>\<open>shutil.rmtree\<close> treat a junction
  as Python 3.12 does (not entered, not removed).
\<close>

subsection \<open>String helpers of the Python library\<close>

definition lower_char :: "char \<Rightarrow> char" where
  "lower_char c =
     (case map_of (zip ''ABCDEFGHIJKLMNOPQRSTUVWXYZ'' ''abcdefghijklmnopqrstuvwxyz'') c of
        Some l \<Rightarrow> l
      | None \<Rightarrow> c)"

definition lower :: "string \<Rightarrow> string" where
  "lower s = map lower_char s"

definition endswith :: "string \<Rightarrow> string \<Rightarrow> bool" where
  "endswith s suf = (length suf \<le> length s \<and> drop (length s - length suf) s = suf)"

text \<open>\<^verbatim>\<open>str.rfind\<close> for a single character: the last index, or \<open>-1\<close>.\<close>

fun rfind_from :: "string \<Rightarrow> char \<Rightarrow> nat \<Rightarrow> int \<Rightarrow> int" where
  "rfind_from [] c i acc = acc"
| "rfind_from (x # xs) c i acc = rfind_from xs c (Suc i) (if x = c then int i else acc)"

definition rfind :: "string \<Rightarrow> char \<Rightarrow> int" where
  "rfind s c = rfind_from s c 0 (- 1)"

text \<open>
  \<^verbatim>\<open>os.path.splitext\<close> on Windows (\<^verbatim>\<open>ntpath\<close>): separators are the backslash and the
  slash, the extension starts at the last dot of the last component, and leading dots of
  that component do not start an extension.
\<close>

definition splitext :: "string \<Rightarrow> string \<times> string" where
  "splitext p =
     (let sepIndex = max (rfind p (CHR 0x5C)) (rfind p (CHR ''/''));
          dotIndex = rfind p (CHR ''.'')
      in if dotIndex > sepIndex
            \<and> list_ex (\<lambda>ch. ch \<noteq> CHR ''.'')
                 (take (nat (dotIndex - (sepIndex + 1))) (drop (nat (sepIndex + 1)) p))
         then (take (nat dotIndex) p, drop (nat dotIndex) p)
         else (p, []))"

subsection \<open>The filesystem\<close>

type_synonym path = "string list"

text \<open>
  A directory lists its entries in the order in which the operating system enumerates
  them; a directory of a real filesystem holds each name once. A regular file is a pair
  of its inode number and the data of that inode: entries with the same number are hard
  links of one file, and writing the file changes the data under every one of its names.
  A symbolic link and a junction record their target, a path from the filesystem root.
\<close>

datatype node =
    File "nat \<times> string"
  | Dir "(string \<times> node) list"
  | Symlink path
  | Junction path

text \<open>\<open>lookup\<close> walks down the tree through directories only: it finds the entry at a
  path none of whose components is reached through a link.\<close>

fun lookup :: "node \<Rightarrow> path \<Rightarrow> node option" where
  "lookup n [] = Some n"
| "lookup (Dir es) (x # p) = (case map_of es x of None \<Rightarrow> None | Some c \<Rightarrow> lookup c p)"
| "lookup (File d) (x # p) = None"
| "lookup (Symlink t) (x # p) = None"
| "lookup (Junction t) (x # p) = None"

definition link_target :: "node \<Rightarrow> path option" where
  "link_target n = (case n of Symlink t \<Rightarrow> Some t | Junction t \<Rightarrow> Some t | _ \<Rightarrow> None)"

text \<open>
  Path resolution as the operating system does it: \<open>canon cr k fs cur rest\<close> stands at the
  link-free path \<open>cur\<close> and has the components \<open>rest\<close> to go. A component that is a
  symbolic link or a junction is replaced by its target, in every position, at most \<open>k\<close>
  times in all (the system gives up with \<^verbatim>\<open>ELOOP\<close>). The result is the link-free path of
  the entry. With \<open>cr\<close> set, the last component may be missing, as for a file that is
  opened for writing.
\<close>

fun canon :: "bool \<Rightarrow> nat \<Rightarrow> node \<Rightarrow> path \<Rightarrow> path \<Rightarrow> path option" where
  "canon cr k fs cur [] = Some cur"
| "canon cr k fs cur (x # rest) =
     (case lookup fs cur of
        Some (Dir es) \<Rightarrow>
          (case map_of es x of
             None \<Rightarrow> if cr \<and> rest = [] then Some (cur @ [x]) else None
           | Some c \<Rightarrow>
               (case link_target c of
                  None \<Rightarrow> canon cr k fs (cur @ [x]) rest
                | Some t \<Rightarrow> (case k of 0 \<Rightarrow> None | Suc k' \<Rightarrow> canon cr k' fs [] (t @ rest))))
      | _ \<Rightarrow> None)"

definition realpath :: "node \<Rightarrow> path \<Rightarrow> path option" where
  "realpath fs p = canon False 40 fs [] p"

text \<open>\<open>stat\<close> follows every link of the path; \<open>entry\<close> is the place of the directory entry
  that a path names (its parent resolved, its last component not followed) and \<open>lstat\<close>
  reads that entry.\<close>

definition stat :: "node \<Rightarrow> path \<Rightarrow> node option" where
  "stat fs p = (case realpath fs p of None \<Rightarrow> None | Some c \<Rightarrow> lookup fs c)"

definition entry :: "node \<Rightarrow> path \<Rightarrow> path option" where
  "entry fs p =
     (if p = [] then None
      else case realpath fs (butlast p) of
             None \<Rightarrow> None
           | Some d \<Rightarrow> (case lookup fs d of Some (Dir es) \<Rightarrow> Some (d @ [last p]) | _ \<Rightarrow> None))"

definition lstat :: "node \<Rightarrow> path \<Rightarrow> node option" where
  "lstat fs p =
     (if p = [] then Some fs
      else case entry fs p of None \<Rightarrow> None | Some e \<Rightarrow> lookup fs e)"

definition is_dir_node :: "node option \<Rightarrow> bool" where
  "is_dir_node r = (case r of Some (Dir es) \<Rightarrow> True | _ \<Rightarrow> False)"

definition is_file_node :: "node option \<Rightarrow> bool" where
  "is_file_node r = (case r of Some (File d) \<Rightarrow> True | _ \<Rightarrow> False)"

text \<open>\<^verbatim>\<open>os.path.isdir\<close>, \<^verbatim>\<open>os.path.isfile\<close>, \<^verbatim>\<open>os.path.exists\<close> follow links;
  \<^verbatim>\<open>os.path.islink\<close> is true of a symbolic link only.\<close>

definition isdir :: "node \<Rightarrow> path \<Rightarrow> bool" where
  "isdir fs p = is_dir_node (stat fs p)"

definition isfile :: "node \<Rightarrow> path \<Rightarrow> bool" where
  "isfile fs p = is_file_node (stat fs p)"

definition exists :: "node \<Rightarrow> path \<Rightarrow> bool" where
  "exists fs p = (stat fs p \<noteq> None)"

definition islink :: "node \<Rightarrow> path \<Rightarrow> bool" where
  "islink fs p = (case lstat fs p of Some (Symlink t) \<Rightarrow> True | _ \<Rightarrow> False)"

text \<open>\<^verbatim>\<open>os.listdir\<close>: the names of a directory, \<open>None\<close> when the call raises.\<close>

definition listdir :: "node \<Rightarrow> path \<Rightarrow> string list option" where
  "listdir fs p = (case stat fs p of Some (Dir es) \<Rightarrow> Some (map fst es) | _ \<Rightarrow> None)"

text \<open>
  \<^verbatim>\<open>os.walk(top)\<close>, top-down, links not followed: one triple
  \<open>(dirpath, dirnames, filenames)\<close> for \<open>top\<close> and then for every directory below it. A
  name goes under \<open>dirnames\<close> when \<^verbatim>\<open>is_dir\<close> holds of it, which follows links, and under
  \<open>filenames\<close> otherwise; only an entry that is a directory itself is entered. A \<open>top\<close>
  that is not a directory yields nothing.
\<close>

definition dirnames_of :: "node \<Rightarrow> path \<Rightarrow> (string \<times> node) list \<Rightarrow> string list" where
  "dirnames_of fs p es = filter (\<lambda>n. isdir fs (p @ [n])) (map fst es)"

definition filenames_of :: "node \<Rightarrow> path \<Rightarrow> (string \<times> node) list \<Rightarrow> string list" where
  "filenames_of fs p es = filter (\<lambda>n. \<not> isdir fs (p @ [n])) (map fst es)"

fun walk_node :: "node \<Rightarrow> path \<Rightarrow> node \<Rightarrow> (path \<times> string list \<times> string list) list"
  and walk_entries :: "node \<Rightarrow> path \<Rightarrow> (string \<times> node) list
                         \<Rightarrow> (path \<times> string list \<times> string list) list" where
  "walk_node fs p (Dir es) =
     (p, dirnames_of fs p es, filenames_of fs p es) # walk_entries fs p es"
| "walk_node fs p (File d) = []"
| "walk_node fs p (Symlink t) = []"
| "walk_node fs p (Junction t) = []"
| "walk_entries fs p [] = []"
| "walk_entries fs p (e # es) = walk_node fs (p @ [fst e]) (snd e) @ walk_entries fs p es"

definition walk :: "node \<Rightarrow> path \<Rightarrow> (path \<times> string list \<times> string list) list" where
  "walk fs tp = (case stat fs tp of Some (Dir es) \<Rightarrow> walk_node fs tp (Dir es) | _ \<Rightarrow> [])"

subsection \<open>Errors, log lines and the run state\<close>

text \<open>The calls of the run that change the filesystem.\<close>

datatype syscall =
    Makedirs path
  | Remove path
  | Rmtree path
  | Link path path
  | Symlink_call path path
  | Mklink_H path path
  | Mklink_J path path
  | Copy2 path path

datatype error =
    FileNotFoundError path
  | FileExistsError path
  | OSError syscall
  | ListdirError path

text \<open>One constructor for each message the module writes through \<^verbatim>\<open>_log\<close>.\<close>

datatype msg =
    Warn_remove_existing path
  | Hard_link path path
  | Symlink_made path path
  | Mklink_H_made path path
  | Accepting_by_name path
  | Warn_remove_junction path
  | Junction_created path path
  | Junction_error path path
  | Warn_remove path
  | Skipping_existing path
  | Copied_fallback path
  | Error_copying path path
  | Detecting path
  | Sectorfile_root path
  | Error_repo_not_found path
  | Error_expected_source path
  | Target_include_dir path
  | Dry_run
  | Would_create_junctions path path
  | Would_link path path
  | Linked_or_copied nat
  | Done
  | Unhandled_error error

record state =
  fsys :: node
  trace :: "(syscall \<times> bool) list"
  logs :: "msg list"
  progress :: "int list"

definition log :: "msg \<Rightarrow> state \<Rightarrow> state" where
  "log m s = s\<lparr>logs := logs s @ [m]\<rparr>"

subsection \<open>Folder discovery\<close>

definition is_isc :: "string \<Rightarrow> bool" where
  "is_isc f = endswith (lower f) ''.isc''"

text \<open>\<^verbatim>\<open>any(f.lower().endswith('.isc') for _,_,files in os.walk(d) for f in files)\<close>\<close>

definition any_isc :: "node \<Rightarrow> path \<Rightarrow> bool" where
  "any_isc fs d = list_ex (\<lambda>(dirpath, dirnames, files). list_ex is_isc files) (walk fs d)"

definition names :: "string list" where
  "names = [''SectorFiles'', ''Sectorfile'', ''SectorFile'', ''SectorFile-MAIN'']"

text \<open>The loop over \<open>names\<close>: \<open>Some (cand, by_name)\<close> when it returns \<open>cand\<close>, where
  \<open>by_name\<close> tells that the folder was accepted by its name alone (and logged).\<close>

fun named_loop :: "node \<Rightarrow> path \<Rightarrow> bool \<Rightarrow> string list \<Rightarrow> (path \<times> bool) option" where
  "named_loop fs root accept_empty_named [] = None"
| "named_loop fs root accept_empty_named (n # ns) =
     (let cand = root @ [n] in
      if isdir fs cand then
        (if isdir fs (cand @ [''Include'']) \<or> any_isc fs cand then Some (cand, False)
         else if accept_empty_named then Some (cand, True)
         else named_loop fs root accept_empty_named ns)
      else named_loop fs root accept_empty_named ns)"

text \<open>The final loop over \<^verbatim>\<open>os.walk(root)\<close>.\<close>

fun walk_loop :: "(path \<times> string list \<times> string list) list \<Rightarrow> path option" where
  "walk_loop [] = None"
| "walk_loop ((dirpath, dirnames, filenames) # rest) =
     (if ''Include'' \<in> set dirnames then Some dirpath
      else if list_ex is_isc filenames then Some dirpath
      else walk_loop rest)"

definition find_sectorfile_dir :: "path \<Rightarrow> bool \<Rightarrow> state \<Rightarrow> (error + path) \<times> state" where
  "find_sectorfile_dir root accept_empty_named s =
     (if isdir (fsys s) root \<and> (isdir (fsys s) (root @ [''Include'']) \<or> any_isc (fsys s) root)
      then (Inr root, s)
      else case named_loop (fsys s) root accept_empty_named names of
             Some (cand, by_name) \<Rightarrow>
               (Inr cand, if by_name then log (Accepting_by_name cand) s else s)
           | None \<Rightarrow>
               (case walk_loop (walk (fsys s) root) of
                  Some dirpath \<Rightarrow> (Inr dirpath, s)
                | None \<Rightarrow> (Inl (FileNotFoundError root), s)))"

subsection \<open>Changing the filesystem\<close>

text \<open>\<open>put p v\<close> sets (\<open>Some\<close>) or deletes (\<open>None\<close>) the entry at the link-free path \<open>p\<close>; it
  does nothing when the parent of \<open>p\<close> is not a directory of the tree.\<close>

fun put :: "path \<Rightarrow> node option \<Rightarrow> node \<Rightarrow> node" where
  "put [] v n = (case v of Some n' \<Rightarrow> n' | None \<Rightarrow> n)"
| "put [x] v (Dir es) =
     Dir (case v of Some n' \<Rightarrow> AList.update x n' es | None \<Rightarrow> AList.delete x es)"
| "put (x # y # p) v (Dir es) =
     (case map_of es x of
        Some c \<Rightarrow> Dir (AList.update x (put (y # p) v c) es)
      | None \<Rightarrow> Dir es)"
| "put (x # p) v (File d) = File d"
| "put (x # p) v (Symlink t) = Symlink t"
| "put (x # p) v (Junction t) = Junction t"

text \<open>The inode numbers in a tree, and writing the data of an inode: every entry of that
  inode shows the new data.\<close>

fun inodes :: "node \<Rightarrow> nat list"
  and inodes_entries :: "(string \<times> node) list \<Rightarrow> nat list" where
  "inodes (File d) = [fst d]"
| "inodes (Dir es) = inodes_entries es"
| "inodes (Symlink t) = []"
| "inodes (Junction t) = []"
| "inodes_entries [] = []"
| "inodes_entries (e # es) = inodes (snd e) @ inodes_entries es"

definition fresh_inode :: "node \<Rightarrow> nat" where
  "fresh_inode fs = Suc (fold max (inodes fs) 0)"

fun write_inode :: "nat \<Rightarrow> string \<Rightarrow> node \<Rightarrow> node"
  and write_entries :: "nat \<Rightarrow> string \<Rightarrow> (string \<times> node) list \<Rightarrow> (string \<times> node) list" where
  "write_inode i d (File f) = (if fst f = i then File (i, d) else File f)"
| "write_inode i d (Dir es) = Dir (write_entries i d es)"
| "write_inode i d (Symlink t) = Symlink t"
| "write_inode i d (Junction t) = Junction t"
| "write_entries i d [] = []"
| "write_entries i d (e # es) = (fst e, write_inode i d (snd e)) # write_entries i d es"

text \<open>A call changes the filesystem by a list of elementary changes, each at a resolved
  place: an entry set or deleted, or the data of an inode written.\<close>

datatype change = Put path "node option" | Write nat string

fun apply_change :: "change \<Rightarrow> node \<Rightarrow> node" where
  "apply_change (Put p v) fs = put p v fs"
| "apply_change (Write i d) fs = write_inode i d fs"

definition apply_changes :: "change list \<Rightarrow> node \<Rightarrow> node" where
  "apply_changes cs fs = fold apply_change cs fs"

text \<open>Creating a new entry: the parent resolves to a directory and the name is free (a
  dangling link occupies its name).\<close>

definition create :: "node \<Rightarrow> path \<Rightarrow> node \<Rightarrow> change list option" where
  "create fs p n =
     (case entry fs p of
        None \<Rightarrow> None
      | Some e \<Rightarrow> if lookup fs e = None then Some [Put e (Some n)] else None)"

text \<open>
  \<^verbatim>\<open>os.makedirs(p, exist_ok=True)\<close> first goes up from \<open>p\<close> while the parent does not exist,
  then makes the directories from the top down with \<^verbatim>\<open>mkdir\<close>. \<open>missing_dirs\<close> are the
  paths it calls \<^verbatim>\<open>mkdir\<close> on.
\<close>

definition missing_dirs :: "node \<Rightarrow> path \<Rightarrow> path list" where
  "missing_dirs fs p =
     rev (p # takeWhile (\<lambda>q. q \<noteq> [] \<and> \<not> exists fs q) (tl (rev (prefixes p))))"

fun mkdir_all :: "node \<Rightarrow> path list \<Rightarrow> change list option" where
  "mkdir_all fs [] = Some []"
| "mkdir_all fs (q # qs) =
     (case create fs q (Dir []) of
        None \<Rightarrow> None
      | Some cs \<Rightarrow>
          (case mkdir_all (apply_changes cs fs) qs of
             None \<Rightarrow> None
           | Some cs' \<Rightarrow> Some (cs @ cs')))"

text \<open>
  The changes a call makes when the operating system carries it out; \<open>None\<close> when it
  fails (the Python call raises, or the command exits with a nonzero code).
  \<^item> \<^verbatim>\<open>os.makedirs(p, exist_ok=True)\<close> accepts an existing directory.
  \<^item> \<^verbatim>\<open>os.remove\<close> removes the entry of a file or a link, not a directory; the other
    names of a hard-linked file stay.
  \<^item> \<^verbatim>\<open>shutil.rmtree\<close> removes a directory tree and refuses a link.
  \<^item> \<^verbatim>\<open>os.link\<close> and \<^verbatim>\<open>mklink /H\<close> make a second entry of the source entry, which is not
    followed: the same inode for a file, the same link for a symbolic link. They,
    \<^verbatim>\<open>os.symlink\<close> and \<^verbatim>\<open>mklink /J\<close> fail when the destination name is taken.
  \<^item> \<^verbatim>\<open>shutil.copy2(src, dst)\<close> copies into \<open>dst\<close> when that is a directory, raises
    \<^verbatim>\<open>SameFileError\<close> when source and destination are the same file, and otherwise opens
    the destination for writing through every link: an existing file has the data of
    its inode replaced, a missing one is created with a new inode.
\<close>

fun plan :: "node \<Rightarrow> syscall \<Rightarrow> change list option" where
  "plan fs (Makedirs p) = (if isdir fs p then Some [] else mkdir_all fs (missing_dirs fs p))"
| "plan fs (Remove p) =
     (case entry fs p of
        None \<Rightarrow> None
      | Some e \<Rightarrow>
          (case lookup fs e of
             Some (File d) \<Rightarrow> Some [Put e None]
           | Some (Symlink t) \<Rightarrow> Some [Put e None]
           | Some (Junction t) \<Rightarrow> Some [Put e None]
           | _ \<Rightarrow> None))"
| "plan fs (Rmtree p) =
     (case entry fs p of
        None \<Rightarrow> None
      | Some e \<Rightarrow> (case lookup fs e of Some (Dir es) \<Rightarrow> Some [Put e None] | _ \<Rightarrow> None))"
| "plan fs (Link src dst) =
     (case lstat fs src of
        Some (File d) \<Rightarrow> create fs dst (File d)
      | Some (Symlink t) \<Rightarrow> create fs dst (Symlink t)
      | _ \<Rightarrow> None)"
| "plan fs (Symlink_call src dst) = create fs dst (Symlink src)"
| "plan fs (Mklink_H dst src) =
     (case lstat fs src of
        Some (File d) \<Rightarrow> create fs dst (File d)
      | Some (Symlink t) \<Rightarrow> create fs dst (Symlink t)
      | _ \<Rightarrow> None)"
| "plan fs (Mklink_J link_path target_path) = create fs link_path (Junction target_path)"
| "plan fs (Copy2 src dst) =
     (case stat fs src of
        Some (File d) \<Rightarrow>
          if src = [] then None
          else (case canon True 40 fs [] (if isdir fs dst then dst @ [last src] else dst) of
                  None \<Rightarrow> None
                | Some e \<Rightarrow>
                    (case lookup fs e of
                       None \<Rightarrow> Some [Put e (Some (File (fresh_inode fs, snd d)))]
                     | Some (File d0) \<Rightarrow>
                         if fst d0 = fst d then None else Some [Write (fst d0) (snd d)]
                     | _ \<Rightarrow> None))
      | _ \<Rightarrow> None)"

definition effect :: "node \<Rightarrow> syscall \<Rightarrow> node option" where
  "effect fs c = (case plan fs c of None \<Rightarrow> None | Some cs \<Rightarrow> Some (apply_changes cs fs))"

text \<open>
  The operating system may refuse a call (permissions, a filesystem without links, a
  missing privilege, a command that the shell does not know): \<open>perm k c\<close> tells whether
  it lets call \<open>c\<close> run when \<open>k\<close> calls have been made before. It cannot make
  \<^verbatim>\<open>os.makedirs(p, exist_ok=True)\<close> fail on a directory that is there: the library
  swallows every error of \<^verbatim>\<open>mkdir\<close> then. Every call and its outcome is appended to the
  trace.
\<close>

definition unrefusable :: "node \<Rightarrow> syscall \<Rightarrow> bool" where
  "unrefusable fs c = (case c of Makedirs p \<Rightarrow> isdir fs p | _ \<Rightarrow> False)"

text \<open>\<open>carried_out perm k fs c\<close>: the filesystem after call \<open>c\<close>, made as call number \<open>k\<close> on the
  filesystem \<open>fs\<close>, or \<open>None\<close> when the call fails.\<close>

definition carried_out :: "(nat \<Rightarrow> syscall \<Rightarrow> bool) \<Rightarrow> nat \<Rightarrow> node \<Rightarrow> syscall \<Rightarrow> node option" where
  "carried_out perm k fs c = (if perm k c \<or> unrefusable fs c then effect fs c else None)"

definition os_call :: "(nat \<Rightarrow> syscall \<Rightarrow> bool) \<Rightarrow> syscall \<Rightarrow> state \<Rightarrow> bool \<times> state" where
  "os_call perm c s =
     (case carried_out perm (length (trace s)) (fsys s) c of
        Some fs' \<Rightarrow> (True, s\<lparr>fsys := fs', trace := trace s @ [(c, True)]\<rparr>)
      | None \<Rightarrow> (False, s\<lparr>trace := trace s @ [(c, False)]\<rparr>))"

subsection \<open>Link primitives\<close>

definition try_hardlink :: "(nat \<Rightarrow> syscall \<Rightarrow> bool) \<Rightarrow> path \<Rightarrow> path \<Rightarrow> state \<Rightarrow> bool \<times> state" where
  "try_hardlink perm src dst s = os_call perm (Link src dst) s"

definition try_symlink :: "(nat \<Rightarrow> syscall \<Rightarrow> bool) \<Rightarrow> path \<Rightarrow> path \<Rightarrow> state \<Rightarrow> bool \<times> state" where
  "try_symlink perm src dst s = os_call perm (Symlink_call src dst) s"

definition try_mklink_hard :: "(nat \<Rightarrow> syscall \<Rightarrow> bool) \<Rightarrow> path \<Rightarrow> path \<Rightarrow> state \<Rightarrow> bool \<times> state" where
  "try_mklink_hard perm src dst s = os_call perm (Mklink_H dst src) s"

definition make_dir_junction :: "(nat \<Rightarrow> syscall \<Rightarrow> bool) \<Rightarrow> path \<Rightarrow> path \<Rightarrow> state \<Rightarrow> bool \<times> state" where
  "make_dir_junction perm link_path target_path s = os_call perm (Mklink_J link_path target_path) s"

definition create_file_link :: "(nat \<Rightarrow> syscall \<Rightarrow> bool) \<Rightarrow> path \<Rightarrow> path \<Rightarrow> state \<Rightarrow> bool \<times> state" where
  "create_file_link perm src dst s =
     (let s1 = (if exists (fsys s) dst
                then (let (removed, s') = os_call perm (Remove dst) s
                      in if removed then s' else log (Warn_remove_existing dst) s')
                else s);
          (ok1, s2) = try_hardlink perm src dst s1
      in if ok1 then (True, log (Hard_link dst src) s2)
         else let (ok2, s3) = try_symlink perm src dst s2
              in if ok2 then (True, log (Symlink_made dst src) s3)
                 else let (ok3, s4) = try_mklink_hard perm src dst s3
                      in if ok3 then (True, log (Mklink_H_made dst src) s4)
                         else (False, s4))"

subsection \<open>Linking policy\<close>

text \<open>The loop of \<^verbatim>\<open>create_conew_junctions\<close> over the two alias names; \<open>Inl\<close> is the
  exception the loop raises.\<close>

fun junction_loop :: "(nat \<Rightarrow> syscall \<Rightarrow> bool) \<Rightarrow> path \<Rightarrow> path \<Rightarrow> bool \<Rightarrow> string list
                        \<Rightarrow> path list \<Rightarrow> state \<Rightarrow> (error + path list) \<times> state" where
  "junction_loop perm src_include_conew target_include_dir force [] created s = (Inr created, s)"
| "junction_loop perm src_include_conew target_include_dir force (name # rest) created s =
     (let link_path = target_include_dir @ [name] in
      if exists (fsys s) link_path \<and> \<not> force then (Inl (FileExistsError link_path), s)
      else
        let s1 = (if exists (fsys s) link_path
                  then (let (removed, s') =
                              os_call perm
                                (if isdir (fsys s) link_path \<and> \<not> islink (fsys s) link_path
                                 then Rmtree link_path else Remove link_path) s
                        in if removed then s' else log (Warn_remove_junction link_path) s')
                  else s);
            (ok, s2) = make_dir_junction perm link_path src_include_conew s1
        in if ok
           then junction_loop perm src_include_conew target_include_dir force rest
                  (created @ [link_path]) (log (Junction_created link_path src_include_conew) s2)
           else junction_loop perm src_include_conew target_include_dir force rest
                  created (log (Junction_error link_path src_include_conew) s2))"

definition create_conew_junctions :: "(nat \<Rightarrow> syscall \<Rightarrow> bool) \<Rightarrow> path \<Rightarrow> path \<Rightarrow> bool \<Rightarrow> state
                                        \<Rightarrow> (error + path list) \<times> state" where
  "create_conew_junctions perm src_include_conew target_include_dir force s =
     (let (made, s1) = os_call perm (Makedirs target_include_dir) s
      in if \<not> made then (Inl (OSError (Makedirs target_include_dir)), s1)
         else junction_loop perm src_include_conew target_include_dir force
                [''COnew'', ''COnew_2''] [] s1)"

definition FILES_EXTS_TO_LINK_ONCE :: "string set" where
  "FILES_EXTS_TO_LINK_ONCE = {''.isc'', ''.clr''}"

definition COnew_REL :: path where
  "COnew_REL = [''Include'', ''COnew'']"

fun link_loop :: "(nat \<Rightarrow> syscall \<Rightarrow> bool) \<Rightarrow> path \<Rightarrow> path \<Rightarrow> bool \<Rightarrow> string list
                    \<Rightarrow> nat \<Rightarrow> state \<Rightarrow> nat \<times> state" where
  "link_loop perm src_main sectorfile_dir force [] count s = (count, s)"
| "link_loop perm src_main sectorfile_dir force (name # rest) count s =
     (let src_path = src_main @ [name] in
      if \<not> isfile (fsys s) src_path
      then link_loop perm src_main sectorfile_dir force rest count s
      else if lower (snd (splitext name)) \<in> FILES_EXTS_TO_LINK_ONCE
      then
        (let dst = sectorfile_dir @ [name] in
         if exists (fsys s) dst \<and> \<not> force
         then link_loop perm src_main sectorfile_dir force rest count (log (Skipping_existing dst) s)
         else
           let s1 = (if exists (fsys s) dst
                     then (let (removed, s') = os_call perm (Remove dst) s
                           in if removed then s' else log (Warn_remove dst) s')
                     else s);
               (ok, s2) = create_file_link perm src_path dst s1;
               s3 = (if \<not> ok
                     then (let (copied, s') = os_call perm (Copy2 src_path dst) s2
                           in if copied then log (Copied_fallback dst) s'
                              else log (Error_copying src_path dst) s')
                     else s2)
           in link_loop perm src_main sectorfile_dir force rest (count + 1) s3)
      else link_loop perm src_main sectorfile_dir force rest count s)"

definition link_top_level_files_once :: "(nat \<Rightarrow> syscall \<Rightarrow> bool) \<Rightarrow> path \<Rightarrow> path \<Rightarrow> bool \<Rightarrow> state
                                           \<Rightarrow> (error + nat) \<times> state" where
  "link_top_level_files_once perm src_main sectorfile_dir force s =
     (case listdir (fsys s) src_main of
        None \<Rightarrow> (Inl (ListdirError src_main), s)
      | Some entries \<Rightarrow>
          (let (count, s') = link_loop perm src_main sectorfile_dir force entries 0 s
           in (Inr count, s')))"

subsection \<open>Run orchestrator\<close>

definition report :: "bool \<Rightarrow> int \<Rightarrow> state \<Rightarrow> state" where
  "report has_progress percent s =
     (if has_progress then s\<lparr>progress := progress s @ [percent]\<rparr> else s)"

definition aurora_root_of :: "path \<Rightarrow> path" where
  "aurora_root_of aurora =
     (if aurora \<noteq> [] \<and> endswith (lower (last aurora)) ''.exe'' then butlast aurora else aurora)"

text \<open>The repo main folder that \<open>run\<close> settles on (its variable \<^verbatim>\<open>src_main\<close>), \<open>None\<close> when
  it returns 2.\<close>

definition src_main_of :: "node \<Rightarrow> path \<Rightarrow> path option" where
  "src_main_of fs repo =
     (if isdir fs repo \<and> isdir fs (repo @ [''Include'']) then Some repo
      else if isdir fs (repo @ [''SectorFile-MAIN'']) then Some (repo @ [''SectorFile-MAIN''])
      else None)"

text \<open>\<open>run\<close> returns the result code and the final state. Every exception raised inside
  the \<^verbatim>\<open>try\<close> block reaches the handler, which logs it and returns 10.\<close>

definition run :: "(nat \<Rightarrow> syscall \<Rightarrow> bool) \<Rightarrow> bool \<Rightarrow> path \<Rightarrow> path \<Rightarrow> bool \<Rightarrow> bool \<Rightarrow> bool
                     \<Rightarrow> state \<Rightarrow> int \<times> state" where
  "run perm has_progress aurora repo force dry_run debug s =
     (let aurora_root = aurora_root_of aurora;
          s1 = log (Detecting aurora_root) s
      in case find_sectorfile_dir aurora_root True s1 of
           (Inl e, s2) \<Rightarrow> (10, log (Unhandled_error e) s2)
         | (Inr sectorfile_dir, s2) \<Rightarrow>
             (let s3 = log (Sectorfile_root sectorfile_dir) s2
              in case src_main_of (fsys s3) repo of
                   None \<Rightarrow> (2, log (Error_repo_not_found repo) s3)
                 | Some src_main \<Rightarrow>
                     (let src_include_conew = src_main @ COnew_REL in
                      if \<not> isdir (fsys s3) src_include_conew
                      then (3, log (Error_expected_source src_include_conew) s3)
                      else
                        let target_include_dir = sectorfile_dir @ [''Include''];
                            s4 = log (Target_include_dir target_include_dir) s3
                        in if dry_run
                           then (0, log (Would_link src_main sectorfile_dir)
                                      (log (Would_create_junctions target_include_dir src_include_conew)
                                         (log Dry_run s4)))
                           else
                             let (made, s5) = os_call perm (Makedirs target_include_dir) s4
                             in if \<not> made
                                then (10, log (Unhandled_error (OSError (Makedirs target_include_dir))) s5)
                                else
                                  let s6 = report has_progress (- 1) s5
                                  in case create_conew_junctions perm src_include_conew
                                            target_include_dir force s6 of
                                       (Inl e, s7) \<Rightarrow> (10, log (Unhandled_error e) s7)
                                     | (Inr created, s7) \<Rightarrow>
                                         (case link_top_level_files_once perm src_main
                                                 sectorfile_dir force s7 of
                                            (Inl e, s8) \<Rightarrow> (10, log (Unhandled_error e) s8)
                                          | (Inr linked, s8) \<Rightarrow>
                                              (0, log Done
                                                    (report has_progress 100
                                                       (log (Linked_or_copied linked) s8)))))))"

subsection \<open>Vocabulary of the statements\<close>

definition init :: "node \<Rightarrow> state" where
  "init f = \<lparr>fsys = f, trace = [], logs = [], progress = []\<rparr>"

definition allow_all :: "nat \<Rightarrow> syscall \<Rightarrow> bool" where
  "allow_all k c = True"

definition deny_all :: "nat \<Rightarrow> syscall \<Rightarrow> bool" where
  "deny_all k c = False"

text \<open>An operating system without hard links, and one on which only the copy works.\<close>

definition no_hardlink :: "nat \<Rightarrow> syscall \<Rightarrow> bool" where
  "no_hardlink k c = (case c of Link src dst \<Rightarrow> False | _ \<Rightarrow> True)"


definition is_copy :: "syscall \<Rightarrow> bool" where
  "is_copy c = (case c of Copy2 a b \<Rightarrow> True | _ \<Rightarrow> False)"

text \<open>Discovery succeeds, the repo main folder is resolved and holds \<^verbatim>\<open>Include/COnew\<close>:
  the run gets past its three checks.\<close>

definition stages_pass :: "path \<Rightarrow> path \<Rightarrow> state \<Rightarrow> bool" where
  "stages_pass aurora repo s =
     (\<not> isl (fst (find_sectorfile_dir (aurora_root_of aurora) True s))
      \<and> (case src_main_of (fsys s) repo of
           None \<Rightarrow> False
         | Some src_main \<Rightarrow> isdir (fsys s) (src_main @ COnew_REL)))"

text \<open>An installation with an empty \<^verbatim>\<open>SectorFiles/Include\<close> and a repository with two
  reference files.\<close>

definition example_fs :: node where
  "example_fs =
     Dir [(''aurora'', Dir [(''SectorFiles'', Dir [(''Include'', Dir [])])]),
          (''repo'',
           Dir [(''SectorFile-MAIN'',
                 Dir [(''Include'', Dir [(''COnew'', Dir [(''airways.txt'', File (1, ''awy''))])]),
                      (''colombia.isc'', File (2, ''isc'')),
                      (''colours.CLR'', File (3, ''clr'')),
                      (''readme.txt'', File (4, ''txt''))])])]"

text \<open>A source folder with one reference file and an empty destination.\<close>

definition one_file_fs :: node where
  "one_file_fs =
     Dir [(''repo'', Dir [(''colombia.isc'', File (1, ''isc''))]), (''dest'', Dir [])]"

text \<open>Filesystems for the discovery statements.\<close>

definition clr_only_fs :: node where
  "clr_only_fs = Dir [(''aurora'', Dir [(''data'', Dir [(''colours.clr'', File (1, ''clr''))])])]"

definition mixed_case_fs :: node where
  "mixed_case_fs = Dir [(''aurora'', Dir [(''COLOURS.Clr'', File (1, ''clr''))])]"

definition isc_below_fs :: node where
  "isc_below_fs = Dir [(''aurora'', Dir [(''data'', Dir [(''Colombia.ISC'', File (1, ''isc''))])])]"

definition both_include_fs :: node where
  "both_include_fs =
     Dir [(''aurora'', Dir [(''Include'', Dir []),
                            (''SectorFiles'', Dir [(''Include'', Dir [])])])]"

definition bare_fs :: node where
  "bare_fs =
     Dir [(''aurora'', Dir [(''Aurora.EXE'', File (1, ''exe'')), (''notes.txt'', File (2, ''txt''))])]"

text \<open>
  The statement about the link primitive compares it with \<open>first_success\<close>: the calls of a
  list are made in order, as calls number \<open>k\<close>, \<open>k + 1\<close>, ..., until the operating system
  carries one out. The result tells whether one succeeded, the filesystem after it (the
  one before when none did) and the calls made with their outcomes.
\<close>

fun first_success :: "(nat \<Rightarrow> syscall \<Rightarrow> bool) \<Rightarrow> nat \<Rightarrow> node \<Rightarrow> syscall list
                        \<Rightarrow> bool \<times> node \<times> (syscall \<times> bool) list" where
  "first_success perm k fs [] = (False, fs, [])"
| "first_success perm k fs (c # cs) =
     (case carried_out perm k fs c of
        Some fs' \<Rightarrow> (True, fs', [(c, True)])
      | None \<Rightarrow>
          (case first_success perm (Suc k) fs cs of
             (ok, fs', tr) \<Rightarrow> (ok, fs', (c, False) # tr)))"

text \<open>
  The execution stage of a run starts in \<open>start_state\<close>: the state of the start with the
  log lines of discovery and of the checks added. \<open>execution_raises\<close> tells that an
  exception escapes that stage: \<^verbatim>\<open>os.makedirs\<close> fails, or \<open>create_conew_junctions\<close> or
  \<open>link_top_level_files_once\<close> raises.
\<close>

definition start_state :: "path \<Rightarrow> state \<Rightarrow> state" where
  "start_state aurora s =
     (case find_sectorfile_dir (aurora_root_of aurora) True
             (log (Detecting (aurora_root_of aurora)) s) of
        (Inl e, s2) \<Rightarrow> s2
      | (Inr sectorfile_dir, s2) \<Rightarrow>
          log (Target_include_dir (sectorfile_dir @ [''Include'']))
            (log (Sectorfile_root sectorfile_dir) s2))"

definition execution_raises :: "(nat \<Rightarrow> syscall \<Rightarrow> bool) \<Rightarrow> bool \<Rightarrow> path \<Rightarrow> path \<Rightarrow> bool
                                  \<Rightarrow> state \<Rightarrow> bool" where
  "execution_raises perm has_progress sectorfile_dir src_main force s =
     (case os_call perm (Makedirs (sectorfile_dir @ [''Include''])) s of
        (made, s5) \<Rightarrow>
          \<not> made
          \<or> (case create_conew_junctions perm (src_main @ COnew_REL)
                     (sectorfile_dir @ [''Include'']) force (report has_progress (- 1) s5) of
                (Inl e, s7) \<Rightarrow> True
              | (Inr created, s7) \<Rightarrow>
                  isl (fst (link_top_level_files_once perm src_main sectorfile_dir force s7))))"

text \<open>Filesystems in which an alias of the destination is there already: the directory
  \<^verbatim>\<open>COnew\<close>, and the junction \<^verbatim>\<open>COnew_2\<close> that an earlier run has made.\<close>

definition alias_exists_fs :: node where
  "alias_exists_fs =
     Dir [(''aurora'', Dir [(''SectorFiles'', Dir [(''Include'', Dir [(''COnew'', Dir [])])])]),
          (''repo'',
           Dir [(''SectorFile-MAIN'',
                 Dir [(''Include'', Dir [(''COnew'', Dir [(''airways.txt'', File (1, ''awy''))])]),
                      (''colombia.isc'', File (2, ''isc''))])])]"

definition second_alias_fs :: node where
  "second_alias_fs =
     Dir [(''aurora'',
           Dir [(''SectorFiles'',
                 Dir [(''Include'',
                       Dir [(''COnew_2'',
                             Junction [''repo'', ''SectorFile-MAIN'', ''Include'', ''COnew''])])])]),
          (''repo'',
           Dir [(''SectorFile-MAIN'',
                 Dir [(''Include'', Dir [(''COnew'', Dir [(''airways.txt'', File (1, ''awy''))])]),
                      (''colombia.isc'', File (2, ''isc''))])])]"

subsection \<open>Vocabulary of the frame statements\<close>

text \<open>
  Two paths are incomparable when neither lies at or below the other. \<open>target\<close> is the
  path a call names as what it creates or removes. \<open>beneath sf p\<close>: the path \<open>p\<close> lies
  strictly below \<open>sf\<close>. \<open>replay\<close> carries out the successful calls of a trace in order.
  A change is \<open>outside\<close> the tree at \<open>keep\<close> when it sets or deletes an entry at a place
  incomparable with \<open>keep\<close>, or writes an inode that has no entry in that tree;
  \<open>untouched keep fs cs\<close>: started on \<open>fs\<close>, every change that a call of \<open>cs\<close> makes or, when
  the operating system refuses it, would have made is outside \<open>keep\<close>, at the place to
  which the operating system resolves the call.
\<close>

definition incomparable :: "path \<Rightarrow> path \<Rightarrow> bool" where
  "incomparable p q = (\<not> prefix p q \<and> \<not> prefix q p)"

fun target :: "syscall \<Rightarrow> path" where
  "target (Makedirs p) = p"
| "target (Remove p) = p"
| "target (Rmtree p) = p"
| "target (Link src dst) = dst"
| "target (Symlink_call src dst) = dst"
| "target (Mklink_H dst src) = dst"
| "target (Mklink_J link_path target_path) = link_path"
| "target (Copy2 src dst) = dst"

definition beneath :: "path \<Rightarrow> path \<Rightarrow> bool" where
  "beneath sf p = (prefix sf p \<and> p \<noteq> sf)"

fun replay :: "node \<Rightarrow> (syscall \<times> bool) list \<Rightarrow> node" where
  "replay fs [] = fs"
| "replay fs (e # es) =
     replay (if snd e then (case effect fs (fst e) of Some fs' \<Rightarrow> fs' | None \<Rightarrow> fs) else fs) es"



text \<open>\<open>good sf s s'\<close>: from the state \<open>s\<close> to the later state \<open>s'\<close>, every call made names a
  path beneath \<open>sf\<close>, and the filesystem has changed by the successful calls only.\<close>

definition good :: "path \<Rightarrow> state \<Rightarrow> state \<Rightarrow> bool" where
  "good sf s s' =
     (\<exists>cs. trace s' = trace s @ cs \<and> list_all (\<lambda>e. beneath sf (target (fst e))) cs
          \<and> fsys s' = replay (fsys s) cs)"

text \<open>\<open>same_kind\<close>: two entries are both directories, or the same file or link.\<close>

definition same_kind :: "node \<Rightarrow> node \<Rightarrow> bool" where
  "same_kind m m' = (case m of Dir es \<Rightarrow> (\<exists>es'. m' = Dir es') | _ \<Rightarrow> m' = m)"



section \<open>Properties\<close>

subsection \<open>Basic facts\<close>

lemma log_trace [simp]: "trace (log m s) = trace s"
  by (simp add: log_def)

lemma log_fsys [simp]: "fsys (log m s) = fsys s"
  by (simp add: log_def)

lemma report_trace [simp]: "trace (report hp v s) = trace s"
  by (simp add: report_def)

lemma report_fsys [simp]: "fsys (report hp v s) = fsys s"
  by (simp add: report_def)

lemma os_call_trace:
  "os_call perm c s = (r, s') \<Longrightarrow> trace s' = trace s @ [(c, r)]"
  by (auto simp: os_call_def split: option.splits)

lemma find_fsys [simp]: "fsys (snd (find_sectorfile_dir root acc s)) = fsys s"
  by (auto simp add: find_sectorfile_dir_def split: option.splits prod.splits)

lemma find_trace [simp]: "trace (snd (find_sectorfile_dir root acc s)) = trace s"
  by (auto simp add: find_sectorfile_dir_def split: option.splits prod.splits)

lemma find_fst_log [simp]:
  "fst (find_sectorfile_dir root acc (log m s)) = fst (find_sectorfile_dir root acc s)"
  by (auto simp add: find_sectorfile_dir_def split: option.splits prod.splits)

subsection \<open>The link primitive\<close>

lemma os_call_result:
  assumes "os_call perm c s = (r, s')"
  shows "r = (carried_out perm (length (trace s)) (fsys s) c \<noteq> None)"
    and "fsys s' = (case carried_out perm (length (trace s)) (fsys s) c of
                      Some fs' \<Rightarrow> fs' | None \<Rightarrow> fsys s)"
    and "trace s' = trace s @ [(c, r)]"
  using assms by (auto simp: os_call_def split: option.splits)

text \<open>
  Claim C7. After the optional removal of an existing destination, \<open>create_file_link\<close>
  makes the calls \<^verbatim>\<open>os.link\<close>, \<^verbatim>\<open>os.symlink\<close>, \<^verbatim>\<open>mklink /H\<close> in this order and stops at
  the first one that the operating system carries out: what it returns, the filesystem
  it leaves and the calls it has made are those of \<open>first_success\<close> on these three calls,
  started on the filesystem that the removal left. So it returns \<open>True\<close> exactly when one
  of the three succeeded, the filesystem then holds the link that this call made, and a
  later mechanism is not tried; when all three fail it returns \<open>False\<close>, the filesystem is
  the one the removal left, and it has made no copy call.
\<close>

theorem create_file_link_order:
  "case create_file_link perm src dst s of (ok, s') \<Rightarrow>
     (let k = length (trace s);
          removed = carried_out perm k (fsys s) (Remove dst);
          removal = (if exists (fsys s) dst then [(Remove dst, removed \<noteq> None)] else []);
          fs1 = (if exists (fsys s) dst
                 then (case removed of Some fs' \<Rightarrow> fs' | None \<Rightarrow> fsys s)
                 else fsys s)
      in (case first_success perm (k + length removal) fs1
                 [Link src dst, Symlink_call src dst, Mklink_H dst src] of
            (ok', fs', tr) \<Rightarrow>
              ok = ok' \<and> fsys s' = fs' \<and> trace s' = trace s @ removal @ tr))
     \<and> (\<exists>pre. (pre = [] \<or> pre = [(Remove dst, True)] \<or> pre = [(Remove dst, False)])
        \<and> (if ok
            then trace s' = trace s @ pre @ [(Link src dst, True)]
               \<or> trace s' = trace s @ pre @ [(Link src dst, False), (Symlink_call src dst, True)]
               \<or> trace s' = trace s @ pre @ [(Link src dst, False), (Symlink_call src dst, False),
                                              (Mklink_H dst src, True)]
            else trace s' = trace s @ pre @ [(Link src dst, False), (Symlink_call src dst, False),
                                             (Mklink_H dst src, False)]))
     \<and> \<not> list_ex (\<lambda>e. is_copy (fst e)) (drop (length (trace s)) (trace s'))"
proof -
  define k where "k = length (trace s)"
  define removed where "removed = carried_out perm k (fsys s) (Remove dst)"
  define removal where
    "removal = (if exists (fsys s) dst then [(Remove dst, removed \<noteq> None)] else [])"
  define fs1 where "fs1 = (if exists (fsys s) dst
                 then (case removed of Some fs' \<Rightarrow> fs' | None \<Rightarrow> fsys s)
                 else fsys s)"
  define s1 where "s1 =
    (if exists (fsys s) dst
     then (let (removed, s') = os_call perm (Remove dst) s
           in if removed then s' else log (Warn_remove_existing dst) s')
     else s)"
  have "fsys s1 = fs1 \<and> trace s1 = trace s @ removal"
  proof (cases "exists (fsys s) dst")
    case False
    then show ?thesis by (simp add: s1_def fs1_def removal_def)
  next
    case True
    obtain r s' where c: "os_call perm (Remove dst) s = (r, s')"
      by (cases "os_call perm (Remove dst) s")
    from os_call_result [OF c] True c show ?thesis
      by (cases r) (simp_all add: s1_def fs1_def removal_def removed_def k_def)
  qed
  then have s1f: "fsys s1 = fs1" and s1: "trace s1 = trace s @ removal" by simp_all
  have pre: "removal = [] \<or> removal = [(Remove dst, True)] \<or> removal = [(Remove dst, False)]"
    by (auto simp: removal_def)
  have nc: "\<not> list_ex (\<lambda>e. is_copy (fst e)) removal"
    using pre by (auto simp: is_copy_def)
  have len: "length (trace s1) = k + length removal"
    using s1 by (simp add: k_def)
  obtain ok1 s2 where c1: "os_call perm (Link src dst) s1 = (ok1, s2)"
    by (cases "os_call perm (Link src dst) s1")
  obtain ok2 s3 where c2: "os_call perm (Symlink_call src dst) s2 = (ok2, s3)"
    by (cases "os_call perm (Symlink_call src dst) s2")
  obtain ok3 s4 where c3: "os_call perm (Mklink_H dst src) s3 = (ok3, s4)"
    by (cases "os_call perm (Mklink_H dst src) s3")
  note r1 = os_call_result [OF c1] and r2 = os_call_result [OF c2]
    and r3 = os_call_result [OF c3]
  have unf: "create_file_link perm src dst s =
      (if ok1 then (True, log (Hard_link dst src) s2)
       else if ok2 then (True, log (Symlink_made dst src) s3)
       else if ok3 then (True, log (Mklink_H_made dst src) s4) else (False, s4))"
    using c1 c2 c3
    by (simp add: create_file_link_def try_hardlink_def try_symlink_def try_mklink_hard_def
          s1_def)
  let ?a1 = "carried_out perm (k + length removal) fs1 (Link src dst)"
  let ?a2 = "carried_out perm (Suc (k + length removal)) fs1 (Symlink_call src dst)"
  let ?a3 = "carried_out perm (Suc (Suc (k + length removal))) fs1 (Mklink_H dst src)"
  have a1: "ok1 = (?a1 \<noteq> None)"
    and f2: "fsys s2 = (case ?a1 of Some fs' \<Rightarrow> fs' | None \<Rightarrow> fs1)"
    and t2: "trace s2 = trace s @ removal @ [(Link src dst, ok1)]"
    using r1 s1 s1f len by (simp_all cong: option.case_cong)
  have A: "case first_success perm (k + length removal) fs1
                 [Link src dst, Symlink_call src dst, Mklink_H dst src] of
            (ok', fs', tr) \<Rightarrow>
              fst (create_file_link perm src dst s) = ok'
              \<and> fsys (snd (create_file_link perm src dst s)) = fs'
              \<and> trace (snd (create_file_link perm src dst s)) = trace s @ removal @ tr"
  proof (cases ok1)
    case True
    with a1 f2 t2 show ?thesis by (auto simp: unf)
  next
    case n1: False
    with a1 f2 have e1: "?a1 = None" and f2': "fsys s2 = fs1" by auto
    have a2: "ok2 = (?a2 \<noteq> None)"
      and f3: "fsys s3 = (case ?a2 of Some fs' \<Rightarrow> fs' | None \<Rightarrow> fs1)"
      and t3: "trace s3 = trace s @ removal @ [(Link src dst, False), (Symlink_call src dst, ok2)]"
      using r2 f2' t2 n1 by (simp_all add: k_def cong: option.case_cong)
    show ?thesis
    proof (cases ok2)
      case True
      with a2 f3 t3 n1 e1 show ?thesis by (auto simp: unf)
    next
      case n2: False
      with a2 f3 have e2: "?a2 = None" and f3': "fsys s3 = fs1" by auto
      have a3: "ok3 = (?a3 \<noteq> None)"
        and f4: "fsys s4 = (case ?a3 of Some fs' \<Rightarrow> fs' | None \<Rightarrow> fs1)"
        and t4: "trace s4 = trace s @ removal
                   @ [(Link src dst, False), (Symlink_call src dst, False), (Mklink_H dst src, ok3)]"
        using r3 f3' t3 n2 by (simp_all add: k_def cong: option.case_cong)
      show ?thesis
        using a3 f4 t4 n1 n2 e1 e2 by (cases ok3) (auto simp: unf)
    qed
  qed
  have B: "\<exists>pre. (pre = [] \<or> pre = [(Remove dst, True)] \<or> pre = [(Remove dst, False)])
        \<and> (if fst (create_file_link perm src dst s)
            then trace (snd (create_file_link perm src dst s)) = trace s @ pre @ [(Link src dst, True)]
               \<or> trace (snd (create_file_link perm src dst s))
                   = trace s @ pre @ [(Link src dst, False), (Symlink_call src dst, True)]
               \<or> trace (snd (create_file_link perm src dst s))
                   = trace s @ pre @ [(Link src dst, False), (Symlink_call src dst, False),
                                      (Mklink_H dst src, True)]
            else trace (snd (create_file_link perm src dst s))
                   = trace s @ pre @ [(Link src dst, False), (Symlink_call src dst, False),
                                      (Mklink_H dst src, False)])"
    using pre r1(3) r2(3) r3(3) s1
    by (cases ok1; cases ok2; cases ok3) (auto simp: unf intro!: exI [of _ removal])
  have C: "\<not> list_ex (\<lambda>e. is_copy (fst e))
             (drop (length (trace s)) (trace (snd (create_file_link perm src dst s))))"
    using nc r1(3) r2(3) r3(3) s1
    by (cases ok1; cases ok2; cases ok3) (auto simp: unf is_copy_def)
  obtain ok s' where cfl: "create_file_link perm src dst s = (ok, s')"
    by (cases "create_file_link perm src dst s")
  note A' = A [unfolded cfl fst_conv snd_conv fs1_def removal_def removed_def k_def]
    and B' = B [unfolded cfl fst_conv snd_conv]
    and C' = C [unfolded cfl fst_conv snd_conv]
  show ?thesis
    unfolding Let_def cfl prod.case by (rule conjI [OF A' conjI [OF B' C']])
qed

theorem create_file_link_order_witness:
  "create_file_link allow_all [''repo'', ''colombia.isc''] [''dest'', ''colombia.isc'']
       (init one_file_fs)
     = (True, \<lparr>fsys = Dir [(''repo'', Dir [(''colombia.isc'', File (1, ''isc''))]),
                           (''dest'', Dir [(''colombia.isc'', File (1, ''isc''))])],
               trace = [(Link [''repo'', ''colombia.isc''] [''dest'', ''colombia.isc''], True)],
               logs = [Hard_link [''dest'', ''colombia.isc''] [''repo'', ''colombia.isc'']],
               progress = []\<rparr>)
   \<and> create_file_link no_hardlink [''repo'', ''colombia.isc''] [''dest'', ''colombia.isc'']
       (init one_file_fs)
     = (True, \<lparr>fsys = Dir [(''repo'', Dir [(''colombia.isc'', File (1, ''isc''))]),
                           (''dest'', Dir [(''colombia.isc'',
                                            Symlink [''repo'', ''colombia.isc''])])],
               trace = [(Link [''repo'', ''colombia.isc''] [''dest'', ''colombia.isc''], False),
                        (Symlink_call [''repo'', ''colombia.isc'']
                           [''dest'', ''colombia.isc''], True)],
               logs = [Symlink_made [''dest'', ''colombia.isc''] [''repo'', ''colombia.isc'']],
               progress = []\<rparr>)
   \<and> create_file_link deny_all [''repo'', ''colombia.isc''] [''dest'', ''colombia.isc'']
       (init one_file_fs)
     = (False, (init one_file_fs)\<lparr>trace :=
          [(Link [''repo'', ''colombia.isc''] [''dest'', ''colombia.isc''], False),
           (Symlink_call [''repo'', ''colombia.isc''] [''dest'', ''colombia.isc''], False),
           (Mklink_H [''dest'', ''colombia.isc''] [''repo'', ''colombia.isc''], False)]\<rparr>)
   \<and> first_success allow_all 0 one_file_fs
        [Link [''repo'', ''colombia.isc''] [''dest'', ''colombia.isc''],
         Symlink_call [''repo'', ''colombia.isc''] [''dest'', ''colombia.isc''],
         Mklink_H [''dest'', ''colombia.isc''] [''repo'', ''colombia.isc'']]
     = (True, Dir [(''repo'', Dir [(''colombia.isc'', File (1, ''isc''))]),
                   (''dest'', Dir [(''colombia.isc'', File (1, ''isc''))])],
        [(Link [''repo'', ''colombia.isc''] [''dest'', ''colombia.isc''], True)])"
proof -
  let ?src = "[''repo'', ''colombia.isc'']" and ?dst = "[''dest'', ''colombia.isc'']"
  have e1: "create_file_link allow_all ?src ?dst (init one_file_fs)
     = (True, \<lparr>fsys = Dir [(''repo'', Dir [(''colombia.isc'', File (1, ''isc''))]),
                           (''dest'', Dir [(''colombia.isc'', File (1, ''isc''))])],
               trace = [(Link ?src ?dst, True)],
               logs = [Hard_link ?dst ?src],
               progress = []\<rparr>)"
    by code_simp
  have e2: "create_file_link no_hardlink ?src ?dst (init one_file_fs)
     = (True, \<lparr>fsys = Dir [(''repo'', Dir [(''colombia.isc'', File (1, ''isc''))]),
                           (''dest'', Dir [(''colombia.isc'', Symlink ?src)])],
               trace = [(Link ?src ?dst, False), (Symlink_call ?src ?dst, True)],
               logs = [Symlink_made ?dst ?src],
               progress = []\<rparr>)"
    by code_simp
  have e3: "create_file_link deny_all ?src ?dst (init one_file_fs)
     = (False, (init one_file_fs)\<lparr>trace :=
          [(Link ?src ?dst, False), (Symlink_call ?src ?dst, False),
           (Mklink_H ?dst ?src, False)]\<rparr>)"
    by code_simp
  have h: "\<not> exists (fsys (init one_file_fs)) ?dst"
    by code_simp
  have i: "fsys (init one_file_fs) = one_file_fs" "trace (init one_file_fs) = []"
    by (simp_all add: init_def)
  from create_file_link_order [where perm = allow_all and src = ?src and dst = ?dst
      and s = "init one_file_fs"]
  have "first_success allow_all 0 one_file_fs
          [Link ?src ?dst, Symlink_call ?src ?dst, Mklink_H ?dst ?src]
     = (True, Dir [(''repo'', Dir [(''colombia.isc'', File (1, ''isc''))]),
                   (''dest'', Dir [(''colombia.isc'', File (1, ''isc''))])],
        [(Link ?src ?dst, True)])"
    unfolding e1 prod.case Let_def using h
    by (cases "first_success allow_all 0 one_file_fs
          [Link ?src ?dst, Symlink_call ?src ?dst, Mklink_H ?dst ?src]") (simp add: i del: first_success.simps)
  with e1 e2 e3 show ?thesis by blast
qed

subsection \<open>The result code of a run\<close>

text \<open>The stages of \<open>run\<close>, one rewrite rule for each way out.\<close>

lemma run_discovery_fails:
  assumes "fst (find_sectorfile_dir (aurora_root_of aurora) True s) = Inl e"
  shows "run perm hp aurora repo force dry_run debug s =
           (10, log (Unhandled_error e)
                  (snd (find_sectorfile_dir (aurora_root_of aurora) True
                          (log (Detecting (aurora_root_of aurora)) s))))"
proof -
  let ?f = "find_sectorfile_dir (aurora_root_of aurora) True (log (Detecting (aurora_root_of aurora)) s)"
  have "fst ?f = Inl e" using assms by simp
  then obtain s2 where "?f = (Inl e, s2)" by (cases ?f) simp
  then show ?thesis by (simp add: run_def Let_def)
qed

lemma run_repo_missing:
  assumes "fst (find_sectorfile_dir (aurora_root_of aurora) True s) = Inr sf"
    and "src_main_of (fsys s) repo = None"
  shows "run perm hp aurora repo force dry_run debug s =
           (2, log (Error_repo_not_found repo)
                 (log (Sectorfile_root sf)
                    (snd (find_sectorfile_dir (aurora_root_of aurora) True
                            (log (Detecting (aurora_root_of aurora)) s)))))"
proof -
  let ?f = "find_sectorfile_dir (aurora_root_of aurora) True (log (Detecting (aurora_root_of aurora)) s)"
  have "fst ?f = Inr sf" using assms by simp
  then obtain s2 where f: "?f = (Inr sf, s2)" by (cases ?f) simp
  have "fsys (snd ?f) = fsys s" by simp
  then have "fsys s2 = fsys s" using f by simp
  with f assms(2) show ?thesis by (simp add: run_def Let_def)
qed

lemma run_conew_missing:
  assumes "fst (find_sectorfile_dir (aurora_root_of aurora) True s) = Inr sf"
    and "src_main_of (fsys s) repo = Some src_main"
    and "\<not> isdir (fsys s) (src_main @ COnew_REL)"
  shows "run perm hp aurora repo force dry_run debug s =
           (3, log (Error_expected_source (src_main @ COnew_REL))
                 (log (Sectorfile_root sf)
                    (snd (find_sectorfile_dir (aurora_root_of aurora) True
                            (log (Detecting (aurora_root_of aurora)) s)))))"
proof -
  let ?f = "find_sectorfile_dir (aurora_root_of aurora) True (log (Detecting (aurora_root_of aurora)) s)"
  have "fst ?f = Inr sf" using assms by simp
  then obtain s2 where f: "?f = (Inr sf, s2)" by (cases ?f) simp
  have "fsys (snd ?f) = fsys s" by simp
  then have "fsys s2 = fsys s" using f by simp
  with f assms(2,3) show ?thesis by (simp add: run_def Let_def)
qed

lemma run_dry:
  assumes "fst (find_sectorfile_dir (aurora_root_of aurora) True s) = Inr sf"
    and "src_main_of (fsys s) repo = Some src_main"
    and "isdir (fsys s) (src_main @ COnew_REL)"
  shows "run perm hp aurora repo force True debug s =
           (0, log (Would_link src_main sf)
                 (log (Would_create_junctions (sf @ [''Include'']) (src_main @ COnew_REL))
                    (log Dry_run
                       (log (Target_include_dir (sf @ [''Include'']))
                          (log (Sectorfile_root sf)
                             (snd (find_sectorfile_dir (aurora_root_of aurora) True
                                     (log (Detecting (aurora_root_of aurora)) s))))))))"
proof -
  let ?f = "find_sectorfile_dir (aurora_root_of aurora) True (log (Detecting (aurora_root_of aurora)) s)"
  have "fst ?f = Inr sf" using assms by simp
  then obtain s2 where f: "?f = (Inr sf, s2)" by (cases ?f) simp
  have "fsys (snd ?f) = fsys s" by simp
  then have "fsys s2 = fsys s" using f by simp
  with f assms(2,3) show ?thesis by (simp add: run_def Let_def)
qed

lemma run_execute:
  assumes "fst (find_sectorfile_dir (aurora_root_of aurora) True s) = Inr sf"
    and "src_main_of (fsys s) repo = Some src_main"
    and "isdir (fsys s) (src_main @ COnew_REL)"
  shows "run perm hp aurora repo force False debug s =
     (let s4 = log (Target_include_dir (sf @ [''Include'']))
                 (log (Sectorfile_root sf)
                    (snd (find_sectorfile_dir (aurora_root_of aurora) True
                            (log (Detecting (aurora_root_of aurora)) s))));
          (made, s5) = os_call perm (Makedirs (sf @ [''Include''])) s4
      in if \<not> made
         then (10, log (Unhandled_error (OSError (Makedirs (sf @ [''Include''])))) s5)
         else case create_conew_junctions perm (src_main @ COnew_REL) (sf @ [''Include'']) force
                     (report hp (- 1) s5) of
                (Inl e, s7) \<Rightarrow> (10, log (Unhandled_error e) s7)
              | (Inr created, s7) \<Rightarrow>
                  (case link_top_level_files_once perm src_main sf force s7 of
                     (Inl e, s8) \<Rightarrow> (10, log (Unhandled_error e) s8)
                   | (Inr linked, s8) \<Rightarrow>
                       (0, log Done (report hp 100 (log (Linked_or_copied linked) s8)))))"
proof -
  let ?f = "find_sectorfile_dir (aurora_root_of aurora) True (log (Detecting (aurora_root_of aurora)) s)"
  have "fst ?f = Inr sf" using assms by simp
  then obtain s2 where f: "?f = (Inr sf, s2)" by (cases ?f) simp
  have "fsys (snd ?f) = fsys s" by simp
  then have "fsys s2 = fsys s" using f by simp
  with f assms(2,3) show ?thesis by (simp add: run_def Let_def split: prod.splits)
qed

lemma start_state_found:
  assumes "fst (find_sectorfile_dir (aurora_root_of aurora) True s) = Inr sf"
  shows "start_state aurora s =
           log (Target_include_dir (sf @ [''Include'']))
             (log (Sectorfile_root sf)
                (snd (find_sectorfile_dir (aurora_root_of aurora) True
                        (log (Detecting (aurora_root_of aurora)) s))))"
proof -
  let ?f = "find_sectorfile_dir (aurora_root_of aurora) True (log (Detecting (aurora_root_of aurora)) s)"
  have "fst ?f = Inr sf" using assms by simp
  then obtain s2 where "?f = (Inr sf, s2)" by (cases ?f) simp
  then show ?thesis by (simp add: start_state_def)
qed

lemma start_state_same [simp]:
  "fsys (start_state aurora s) = fsys s" "trace (start_state aurora s) = trace s"
proof -
  let ?f = "find_sectorfile_dir (aurora_root_of aurora) True (log (Detecting (aurora_root_of aurora)) s)"
  have f: "fsys (snd ?f) = fsys s" and t: "trace (snd ?f) = trace s" by simp_all
  obtain r s2 where e: "?f = (r, s2)" by (cases ?f)
  with f t have "fsys s2 = fsys s" "trace s2 = trace s" by simp_all
  with e show "fsys (start_state aurora s) = fsys s" "trace (start_state aurora s) = trace s"
    by (cases r; simp add: start_state_def)+
qed

lemma run_execute_code:
  assumes "fst (find_sectorfile_dir (aurora_root_of aurora) True s) = Inr sf"
    and "src_main_of (fsys s) repo = Some src_main"
    and "isdir (fsys s) (src_main @ COnew_REL)"
  shows "fst (run perm hp aurora repo force False debug s)
           = (if execution_raises perm hp sf src_main force (start_state aurora s) then 10 else 0)"
proof -
  let ?s4 = "start_state aurora s"
  obtain made s5 where m: "os_call perm (Makedirs (sf @ [''Include''])) ?s4 = (made, s5)"
    by (cases "os_call perm (Makedirs (sf @ [''Include''])) ?s4")
  obtain r s7 where j: "create_conew_junctions perm (src_main @ COnew_REL) (sf @ [''Include''])
                          force (report hp (- 1) s5) = (r, s7)"
    by (cases "create_conew_junctions perm (src_main @ COnew_REL) (sf @ [''Include''])
                          force (report hp (- 1) s5)")
  obtain r' s8 where l: "link_top_level_files_once perm src_main sf force s7 = (r', s8)"
    by (cases "link_top_level_files_once perm src_main sf force s7")
  have e: "execution_raises perm hp sf src_main force ?s4 = (\<not> made \<or> isl r \<or> isl r')"
    using m j l by (cases r; cases r') (simp_all add: execution_raises_def)
  have "fst (run perm hp aurora repo force False debug s)
          = (if \<not> made \<or> isl r \<or> isl r' then 10 else 0)"
    using m j l
    by (cases r; cases r')
      (simp_all add: run_execute [OF assms] start_state_found [OF assms(1), symmetric])
  with e show ?thesis by simp
qed

text \<open>
  Claim C5, as stated, fails: when discovery fails the run returns 10 even though the repo
  main folder cannot be resolved.
\<close>

theorem run_code_two_counterexample:
  "src_main_of (fsys (init (Dir []))) [''repo''] = None
   \<and> fst (run allow_all True [''aurora''] [''repo''] False False False (init (Dir []))) = 10"
  by code_simp

text \<open>
  Claim C5, amended. \<open>run\<close> always returns, and its code is one of 0, 2, 3, 10. A failed
  discovery gives 10. The code is 2 exactly when discovery succeeds and the repo main
  folder cannot be resolved; it is 3 exactly when discovery succeeds, the main folder
  is resolved and \<^verbatim>\<open>Include/COnew\<close> is missing in it. The code 0 is returned only when the
  three checks pass, and always on a dry run that passes them. A real run that passes
  them returns 0 exactly when no exception escapes its execution stage, and 10 exactly
  when one does; the execution stage starts on the filesystem and the trace of the start.
\<close>

theorem run_result_codes:
  "fst (run perm hp aurora repo force dry_run debug s) \<in> {0, 2, 3, 10}
   \<and> (isl (fst (find_sectorfile_dir (aurora_root_of aurora) True s))
        \<longrightarrow> fst (run perm hp aurora repo force dry_run debug s) = 10)
   \<and> (fst (run perm hp aurora repo force dry_run debug s) = 2
        \<longleftrightarrow> \<not> isl (fst (find_sectorfile_dir (aurora_root_of aurora) True s))
            \<and> src_main_of (fsys s) repo = None)
   \<and> (fst (run perm hp aurora repo force dry_run debug s) = 3
        \<longleftrightarrow> \<not> isl (fst (find_sectorfile_dir (aurora_root_of aurora) True s))
            \<and> (\<exists>src_main. src_main_of (fsys s) repo = Some src_main
                  \<and> \<not> isdir (fsys s) (src_main @ COnew_REL)))
   \<and> (fst (run perm hp aurora repo force dry_run debug s) = 0 \<longrightarrow> stages_pass aurora repo s)
   \<and> (stages_pass aurora repo s \<and> dry_run
        \<longrightarrow> fst (run perm hp aurora repo force dry_run debug s) = 0)
   \<and> (stages_pass aurora repo s
        \<longrightarrow> fst (run perm hp aurora repo force dry_run debug s) \<in> {0, 10})
   \<and> (\<forall>sf src_main.
         fst (find_sectorfile_dir (aurora_root_of aurora) True s) = Inr sf
         \<and> src_main_of (fsys s) repo = Some src_main
         \<and> isdir (fsys s) (src_main @ COnew_REL) \<and> \<not> dry_run
         \<longrightarrow> (fst (run perm hp aurora repo force dry_run debug s) = 0
                \<longleftrightarrow> \<not> execution_raises perm hp sf src_main force (start_state aurora s))
             \<and> (fst (run perm hp aurora repo force dry_run debug s) = 10
                \<longleftrightarrow> execution_raises perm hp sf src_main force (start_state aurora s)))
   \<and> fsys (start_state aurora s) = fsys s \<and> trace (start_state aurora s) = trace s"
proof (cases "fst (find_sectorfile_dir (aurora_root_of aurora) True s)")
  case (Inl e)
  then show ?thesis by (simp add: run_discovery_fails stages_pass_def)
next
  case (Inr sf)
  show ?thesis
  proof (cases "src_main_of (fsys s) repo")
    case None
    with Inr show ?thesis by (simp add: run_repo_missing stages_pass_def)
  next
    case (Some src_main)
    show ?thesis
    proof (cases "isdir (fsys s) (src_main @ COnew_REL)")
      case False
      with Inr Some show ?thesis by (simp add: run_conew_missing stages_pass_def)
    next
      case True
      show ?thesis
      proof (cases dry_run)
        case True
        with Inr Some \<open>isdir (fsys s) (src_main @ COnew_REL)\<close> show ?thesis
          by (simp add: run_dry stages_pass_def)
      next
        case False
        have "fst (run perm hp aurora repo force False debug s)
           = (if execution_raises perm hp sf src_main force (start_state aurora s) then 10 else 0)"
          using Inr Some True by (rule run_execute_code)
        with False Inr Some True show ?thesis
          by (simp add: stages_pass_def)
      qed
    qed
  qed
qed

theorem run_result_codes_witness:
  "isl (fst (find_sectorfile_dir (aurora_root_of [''aurora'']) True (init (Dir []))))
   \<and> fst (run allow_all True [''aurora''] [''repo''] False False False (init (Dir []))) = 10
   \<and> stages_pass [''aurora''] [''repo''] (init example_fs)
   \<and> fst (run allow_all True [''aurora''] [''repo''] False True False (init example_fs)) = 0
   \<and> \<not> execution_raises allow_all True [''aurora'', ''SectorFiles'']
          [''repo'', ''SectorFile-MAIN''] False (start_state [''aurora''] (init example_fs))
   \<and> fst (run allow_all True [''aurora''] [''repo''] False False False (init example_fs)) = 0
   \<and> execution_raises allow_all True [''aurora'', ''SectorFiles'']
          [''repo'', ''SectorFile-MAIN''] False (start_state [''aurora''] (init alias_exists_fs))
   \<and> fst (run allow_all True [''aurora''] [''repo''] False False False (init alias_exists_fs)) = 10"
proof -
  have h1: "isl (fst (find_sectorfile_dir (aurora_root_of [''aurora'']) True (init (Dir []))))"
    by code_simp
  have h2: "stages_pass [''aurora''] [''repo''] (init example_fs)"
    by code_simp
  from h1 run_result_codes [where perm = allow_all and hp = True and aurora = "[''aurora'']"
      and repo = "[''repo'']" and force = False and dry_run = False and debug = False
      and s = "init (Dir [])"]
  have c1: "fst (run allow_all True [''aurora''] [''repo''] False False False (init (Dir []))) = 10"
    by blast
  from h2 run_result_codes [where perm = allow_all and hp = True and aurora = "[''aurora'']"
      and repo = "[''repo'']" and force = False and dry_run = True and debug = False
      and s = "init example_fs"]
  have c2: "fst (run allow_all True [''aurora''] [''repo''] False True False (init example_fs)) = 0"
    by blast
  have f3: "fst (find_sectorfile_dir (aurora_root_of [''aurora'']) True (init example_fs))
              = Inr [''aurora'', ''SectorFiles'']"
    and m3: "src_main_of (fsys (init example_fs)) [''repo''] = Some [''repo'', ''SectorFile-MAIN'']"
    and d3: "isdir (fsys (init example_fs)) ([''repo'', ''SectorFile-MAIN''] @ COnew_REL)"
    and x3: "\<not> execution_raises allow_all True [''aurora'', ''SectorFiles'']
          [''repo'', ''SectorFile-MAIN''] False (start_state [''aurora''] (init example_fs))"
    by code_simp+
  from f3 m3 d3 x3
    run_result_codes [where perm = allow_all and hp = True and aurora = "[''aurora'']"
      and repo = "[''repo'']" and force = False and dry_run = False and debug = False
      and s = "init example_fs"]
  have c3: "fst (run allow_all True [''aurora''] [''repo''] False False False (init example_fs)) = 0"
    by blast
  have f4: "fst (find_sectorfile_dir (aurora_root_of [''aurora'']) True (init alias_exists_fs))
              = Inr [''aurora'', ''SectorFiles'']"
    and m4: "src_main_of (fsys (init alias_exists_fs)) [''repo'']
              = Some [''repo'', ''SectorFile-MAIN'']"
    and d4: "isdir (fsys (init alias_exists_fs)) ([''repo'', ''SectorFile-MAIN''] @ COnew_REL)"
    and x4: "execution_raises allow_all True [''aurora'', ''SectorFiles'']
          [''repo'', ''SectorFile-MAIN''] False (start_state [''aurora''] (init alias_exists_fs))"
    by code_simp+
  from f4 m4 d4 x4
    run_result_codes [where perm = allow_all and hp = True and aurora = "[''aurora'']"
      and repo = "[''repo'']" and force = False and dry_run = False and debug = False
      and s = "init alias_exists_fs"]
  have c4: "fst (run allow_all True [''aurora''] [''repo''] False False False
                   (init alias_exists_fs)) = 10"
    by blast
  from h1 h2 c1 c2 x3 c3 x4 c4 show ?thesis by blast
qed

subsection \<open>Dry run\<close>

text \<open>
  Claim C8, as stated, fails: a dry run on a repository path without a main folder returns
  2, not 0.
\<close>

theorem dry_run_code_counterexample:
  "fst (run allow_all True [''aurora''] [''nowhere''] False True False (init example_fs)) = 2"
  by code_simp

text \<open>
  Claim C8, amended. A run with \<open>dry_run\<close> set makes no call that changes the filesystem
  and leaves the filesystem as it was, whatever \<open>force\<close> is; it returns 0 exactly when
  discovery and the two structure checks pass (otherwise it returns the code of the check
  that failed).
\<close>

theorem dry_run_no_mutation:
  "fsys (snd (run perm hp aurora repo force True debug s)) = fsys s
   \<and> trace (snd (run perm hp aurora repo force True debug s)) = trace s
   \<and> (fst (run perm hp aurora repo force True debug s) = 0 \<longleftrightarrow> stages_pass aurora repo s)"
proof (cases "fst (find_sectorfile_dir (aurora_root_of aurora) True s)")
  case (Inl e)
  then show ?thesis by (simp add: run_discovery_fails stages_pass_def)
next
  case (Inr sf)
  show ?thesis
  proof (cases "src_main_of (fsys s) repo")
    case None
    with Inr show ?thesis by (simp add: run_repo_missing stages_pass_def)
  next
    case (Some src_main)
    with Inr show ?thesis
      by (cases "isdir (fsys s) (src_main @ COnew_REL)")
        (simp_all add: run_conew_missing run_dry stages_pass_def)
  qed
qed

theorem dry_run_no_mutation_witness:
  "stages_pass [''aurora''] [''repo''] (init example_fs)
   \<and> run allow_all True [''aurora''] [''repo''] True True False (init example_fs)
       = (0, (init example_fs)\<lparr>logs :=
            [Detecting [''aurora''], Sectorfile_root [''aurora'', ''SectorFiles''],
             Target_include_dir [''aurora'', ''SectorFiles'', ''Include''], Dry_run,
             Would_create_junctions [''aurora'', ''SectorFiles'', ''Include'']
               [''repo'', ''SectorFile-MAIN'', ''Include'', ''COnew''],
             Would_link [''repo'', ''SectorFile-MAIN''] [''aurora'', ''SectorFiles'']]\<rparr>)
   \<and> fsys (snd (run allow_all True [''aurora''] [''repo''] True True False (init example_fs)))
       = example_fs
   \<and> trace (snd (run allow_all True [''aurora''] [''repo''] True True False (init example_fs)))
       = []"
proof -
  have h: "stages_pass [''aurora''] [''repo''] (init example_fs)"
    by code_simp
  have e: "run allow_all True [''aurora''] [''repo''] True True False (init example_fs)
       = (0, (init example_fs)\<lparr>logs :=
            [Detecting [''aurora''], Sectorfile_root [''aurora'', ''SectorFiles''],
             Target_include_dir [''aurora'', ''SectorFiles'', ''Include''], Dry_run,
             Would_create_junctions [''aurora'', ''SectorFiles'', ''Include'']
               [''repo'', ''SectorFile-MAIN'', ''Include'', ''COnew''],
             Would_link [''repo'', ''SectorFile-MAIN''] [''aurora'', ''SectorFiles'']]\<rparr>)"
    by code_simp
  from dry_run_no_mutation [where perm = allow_all and hp = True and aurora = "[''aurora'']"
      and repo = "[''repo'']" and force = True and debug = False and s = "init example_fs"]
  have "fsys (snd (run allow_all True [''aurora''] [''repo''] True True False (init example_fs)))
          = example_fs
        \<and> trace (snd (run allow_all True [''aurora''] [''repo''] True True False (init example_fs)))
          = []"
    by (simp add: init_def)
  with h e show ?thesis by blast
qed

subsection \<open>The processed count\<close>

lemma link_loop_attempt:
  assumes "isfile (fsys s) (src_main @ [name])"
    and "lower (snd (splitext name)) \<in> FILES_EXTS_TO_LINK_ONCE"
    and "force \<or> \<not> exists (fsys s) (sectorfile_dir @ [name])"
  shows "\<exists>s'. \<forall>rest count. link_loop perm src_main sectorfile_dir force (name # rest) count s
           = link_loop perm src_main sectorfile_dir force rest (Suc count) s'"
proof -
  define s1 where "s1 =
    (if exists (fsys s) (sectorfile_dir @ [name])
     then (let (removed, s') = os_call perm (Remove (sectorfile_dir @ [name])) s
           in if removed then s' else log (Warn_remove (sectorfile_dir @ [name])) s')
     else s)"
  obtain ok s2 where c: "create_file_link perm (src_main @ [name]) (sectorfile_dir @ [name]) s1 = (ok, s2)"
    by (cases "create_file_link perm (src_main @ [name]) (sectorfile_dir @ [name]) s1")
  define s3 where "s3 =
    (if \<not> ok
     then (let (copied, s') = os_call perm (Copy2 (src_main @ [name]) (sectorfile_dir @ [name])) s2
           in if copied then log (Copied_fallback (sectorfile_dir @ [name])) s'
              else log (Error_copying (src_main @ [name]) (sectorfile_dir @ [name])) s')
     else s2)"
  have "\<And>rest count. link_loop perm src_main sectorfile_dir force (name # rest) count s
           = link_loop perm src_main sectorfile_dir force rest (Suc count) s3"
    using assms c by (auto simp add: Let_def s1_def s3_def)
  then show ?thesis by blast
qed

lemma link_loop_step:
  "\<exists>s' b. \<forall>rest count. link_loop perm src_main sectorfile_dir force (name # rest) count s
           = link_loop perm src_main sectorfile_dir force rest (if b then Suc count else count) s'"
proof (cases "isfile (fsys s) (src_main @ [name])
                \<and> lower (snd (splitext name)) \<in> FILES_EXTS_TO_LINK_ONCE")
  case False
  then have "\<forall>rest count. link_loop perm src_main sectorfile_dir force (name # rest) count s
           = link_loop perm src_main sectorfile_dir force rest (if False then Suc count else count) s"
    by (auto simp: Let_def)
  then show ?thesis by blast
next
  case True
  show ?thesis
  proof (cases "force \<or> \<not> exists (fsys s) (sectorfile_dir @ [name])")
    case False
    with True have "\<forall>rest count. link_loop perm src_main sectorfile_dir force (name # rest) count s
           = link_loop perm src_main sectorfile_dir force rest (if False then Suc count else count)
               (log (Skipping_existing (sectorfile_dir @ [name])) s)"
      by (auto simp: Let_def)
    then show ?thesis by blast
  next
    case f: True
    from True f link_loop_attempt [of s src_main name force sectorfile_dir perm]
    obtain s' where "\<forall>rest count. link_loop perm src_main sectorfile_dir force (name # rest) count s
           = link_loop perm src_main sectorfile_dir force rest (if True then Suc count else count) s'"
      by (auto simp: Let_def)
    then show ?thesis by blast
  qed
qed

lemma link_loop_count_add:
  "fst (link_loop perm src_main sectorfile_dir force entries count s)
     = count + fst (link_loop perm src_main sectorfile_dir force entries 0 s)"
proof (induction entries arbitrary: count s)
  case Nil
  show ?case by simp
next
  case (Cons name rest)
  obtain s' b where st: "\<And>r c. link_loop perm src_main sectorfile_dir force (name # r) c s
           = link_loop perm src_main sectorfile_dir force r (if b then Suc c else c) s'"
    using link_loop_step [of perm src_main sectorfile_dir force name s] by blast
  show ?case
    unfolding st
    using Cons.IH [of "Suc count" s'] Cons.IH [of count s'] Cons.IH [of "Suc 0" s']
    by (cases b) simp_all
qed

text \<open>
  Claim C2, as stated, fails: with every link call and the copy refused, the one file of
  the source folder is still counted.
\<close>

theorem copy_failure_counted_counterexample:
  "link_top_level_files_once deny_all [''repo''] [''dest''] False (init one_file_fs)
     = (Inr 1, (init one_file_fs)\<lparr>
          trace := [(Link [''repo'', ''colombia.isc''] [''dest'', ''colombia.isc''], False),
                    (Symlink_call [''repo'', ''colombia.isc''] [''dest'', ''colombia.isc''], False),
                    (Mklink_H [''dest'', ''colombia.isc''] [''repo'', ''colombia.isc''], False),
                    (Copy2 [''repo'', ''colombia.isc''] [''dest'', ''colombia.isc''], False)],
          logs := [Error_copying [''repo'', ''colombia.isc''] [''dest'', ''colombia.isc'']]\<rparr>)"
  by code_simp

text \<open>
  Claim C2, amended. A regular file of the source folder with a recognized extension
  whose destination is absent, or is there with \<open>force\<close> set, reaches the link attempt,
  and the count is incremented for it whatever the outcome of the link calls and of the
  fallback copy (any \<open>perm\<close>): a folder listing of that file alone returns \<open>count + 1\<close>,
  and in a longer listing the file adds one to what the remaining names add.
\<close>

theorem link_loop_counts_every_attempt:
  assumes "isfile (fsys s) (src_main @ [name])"
    and "lower (snd (splitext name)) \<in> FILES_EXTS_TO_LINK_ONCE"
    and "force \<or> \<not> exists (fsys s) (sectorfile_dir @ [name])"
  shows "fst (link_loop perm src_main sectorfile_dir force [name] count s) = count + 1
    \<and> (\<exists>s'. fst (link_loop perm src_main sectorfile_dir force (name # rest) count s)
               = count + 1 + fst (link_loop perm src_main sectorfile_dir force rest 0 s'))"
proof -
  obtain s' where st: "\<And>r c. link_loop perm src_main sectorfile_dir force (name # r) c s
           = link_loop perm src_main sectorfile_dir force r (Suc c) s'"
    using link_loop_attempt [OF assms, of perm] by blast
  have "fst (link_loop perm src_main sectorfile_dir force rest (Suc count) s')
          = Suc count + fst (link_loop perm src_main sectorfile_dir force rest 0 s')"
    by (rule link_loop_count_add)
  then show ?thesis unfolding st by auto
qed

theorem link_loop_counts_every_attempt_witness:
  "isfile (fsys (init one_file_fs)) ([''repo''] @ [''colombia.isc''])
   \<and> lower (snd (splitext ''colombia.isc'')) \<in> FILES_EXTS_TO_LINK_ONCE
   \<and> \<not> exists (fsys (init one_file_fs)) ([''dest''] @ [''colombia.isc''])
   \<and> fst (link_loop deny_all [''repo''] [''dest''] False [''colombia.isc''] 0 (init one_file_fs)) = 1"
proof -
  have h1: "isfile (fsys (init one_file_fs)) ([''repo''] @ [''colombia.isc''])" by code_simp
  have h2: "lower (snd (splitext ''colombia.isc'')) \<in> FILES_EXTS_TO_LINK_ONCE" by code_simp
  have h3: "\<not> exists (fsys (init one_file_fs)) ([''dest''] @ [''colombia.isc''])" by code_simp
  from h3 have h3': "False \<or> \<not> exists (fsys (init one_file_fs)) ([''dest''] @ [''colombia.isc''])" by simp
  from link_loop_counts_every_attempt [OF h1 h2 h3', where perm = deny_all and count = 0]
  have "fst (link_loop deny_all [''repo''] [''dest''] False [''colombia.isc''] 0 (init one_file_fs)) = 1"
    by simp
  with h1 h2 h3 show ?thesis by blast
qed

subsection \<open>Strings\<close>

lemma rfind_from_absent: "c \<notin> set s \<Longrightarrow> rfind_from s c i acc = acc"
  by (induction s arbitrary: i acc) auto

lemma rfind_from_append:
  "rfind_from (xs @ ys) c i acc = rfind_from ys c (i + length xs) (rfind_from xs c i acc)"
  by (induction xs arbitrary: i acc) auto

lemma rfind_absent: "c \<notin> set s \<Longrightarrow> rfind s c = - 1"
  by (simp add: rfind_def rfind_from_absent)

lemma rfind_last_occurrence:
  "c \<notin> set e \<Longrightarrow> rfind (stem @ c # e) c = int (length stem)"
  by (simp add: rfind_def rfind_from_append rfind_from_absent)

lemma lower_char_fixed:
  "lower_char (CHR ''.'') = CHR ''.''"
  "lower_char (CHR ''/'') = CHR ''/''"
  "lower_char (CHR 0x5C) = CHR 0x5C"
  by (simp_all add: lower_char_def)

lemma lower_char_cases:
  "lower_char c = c \<or> lower_char c \<in> set ''abcdefghijklmnopqrstuvwxyz''"
proof (cases "map_of (zip ''ABCDEFGHIJKLMNOPQRSTUVWXYZ'' ''abcdefghijklmnopqrstuvwxyz'') c")
  case None
  show ?thesis unfolding lower_char_def None by simp
next
  case (Some l)
  then have "(c, l) \<in> set (zip ''ABCDEFGHIJKLMNOPQRSTUVWXYZ'' ''abcdefghijklmnopqrstuvwxyz'')"
    by (rule map_of_SomeD)
  then have "l \<in> set ''abcdefghijklmnopqrstuvwxyz''" by (rule set_zip_rightD)
  then show ?thesis unfolding lower_char_def Some by simp
qed

lemma lower_char_dot: "lower_char c = CHR ''.'' \<Longrightarrow> c = CHR ''.''"
  using lower_char_cases [of c] by auto

lemma lower_append: "lower (a @ b) = lower a @ lower b"
  by (simp add: lower_def)

lemma lower_length [simp]: "length (lower a) = length a"
  by (simp add: lower_def)


lemma recognized_ext_shape:
  assumes "lower ext \<in> FILES_EXTS_TO_LINK_ONCE"
  obtains e where "ext = CHR ''.'' # e" and "length e = 3"
    and "CHR ''.'' \<notin> set e" and "CHR ''/'' \<notin> set e" and "CHR 0x5C \<notin> set e"
proof -
  from assms have l: "lower ext = ''.isc'' \<or> lower ext = ''.clr''"
    by (simp add: FILES_EXTS_TO_LINK_ONCE_def)
  have "length (map lower_char ext) = length ext" by simp
  with l have len: "length ext = 4" unfolding lower_def by auto
  then obtain d e where ext: "ext = d # e" and le: "length e = 3"
    by (cases ext) auto
  from l ext have "lower_char d = CHR ''.''" by (auto simp: lower_def)
  then have d: "d = CHR ''.''" by (rule lower_char_dot)
  from l ext have le': "lower e = ''isc'' \<or> lower e = ''clr''" by (auto simp: lower_def)
  have "\<And>c. c = CHR ''.'' \<or> c = CHR ''/'' \<or> c = CHR 0x5C \<Longrightarrow> c \<notin> set e"
  proof
    fix c assume c: "c = CHR ''.'' \<or> c = CHR ''/'' \<or> c = CHR 0x5C" and "c \<in> set e"
    then have "lower_char c \<in> set (lower e)" by (simp add: lower_def)
    with c have "c \<in> set (lower e)" by (auto simp: lower_char_fixed)
    with le' c show False by auto
  qed
  then have "CHR ''.'' \<notin> set e" "CHR ''/'' \<notin> set e" "CHR 0x5C \<notin> set e" by blast+
  with ext d le that show ?thesis by blast
qed

lemma splitext_recognized:
  assumes "lower ext \<in> FILES_EXTS_TO_LINK_ONCE"
    and "\<exists>ch \<in> set stem. ch \<noteq> CHR ''.''"
    and "CHR ''/'' \<notin> set stem" and "CHR 0x5C \<notin> set stem"
  shows "splitext (stem @ ext) = (stem, ext)"
proof -
  from assms(1) obtain e where ext: "ext = CHR ''.'' # e"
    and nd: "CHR ''.'' \<notin> set e" and ns: "CHR ''/'' \<notin> set e" and nb: "CHR 0x5C \<notin> set e"
    by (rule recognized_ext_shape)
  have dot: "rfind (stem @ ext) (CHR ''.'') = int (length stem)"
    unfolding ext using nd by (rule rfind_last_occurrence)
  have s1: "rfind (stem @ ext) (CHR ''/'') = - 1"
    using assms(3) ns by (intro rfind_absent) (simp add: ext)
  have s2: "rfind (stem @ ext) (CHR 0x5C) = - 1"
    using assms(4) nb by (intro rfind_absent) (simp add: ext)
  from assms(2) have "list_ex (\<lambda>ch. ch \<noteq> CHR ''.'') stem" by (simp add: list_ex_iff)
  then show ?thesis by (simp add: splitext_def dot s1 s2)
qed

lemma is_isc_ext:
  assumes "length ext = 4"
  shows "is_isc (stem @ ext) \<longleftrightarrow> lower ext = ''.isc''"
  using assms by (auto simp: is_isc_def endswith_def lower_append)



subsection \<open>Path resolution\<close>

lemma lookup_append:
  "lookup n (p @ q) = (case lookup n p of None \<Rightarrow> None | Some c \<Rightarrow> lookup c q)"
proof (induction p arbitrary: n)
  case Nil
  show ?case by simp
next
  case (Cons x p)
  show ?case by (cases n) (simp_all add: Cons.IH split: option.splits)
qed

lemma lookup_step_Dir:
  assumes "lookup n (x # p) = Some c"
  obtains es c' where "n = Dir es" and "map_of es x = Some c'" and "lookup c' p = Some c"
  using assms by (cases n) (auto split: option.splits)

lemma lookup_below_is_Dir:
  assumes "lookup fs (root @ x # q) = Some c"
  obtains es where "lookup fs root = Some (Dir es)" and "lookup (Dir es) (x # q) = Some c"
proof -
  from assms obtain n where r: "lookup fs root = Some n" and l: "lookup n (x # q) = Some c"
    by (auto simp: lookup_append split: option.splits)
  from l obtain es where "n = Dir es" by (cases n) auto
  with r l that show ?thesis by blast
qed

lemma link_target_simps [simp]:
  "link_target (File d) = None" "link_target (Dir es) = None"
  "link_target (Symlink t) = Some t" "link_target (Junction t) = Some t"
  by (simp_all add: link_target_def)

lemma lookup_through_link:
  "link_target c = Some t \<Longrightarrow> lookup c p = Some n \<Longrightarrow> p = [] \<and> n = c"
  by (cases c; cases p) simp_all

text \<open>A path that \<open>lookup\<close> finds, and that does not end in a link, resolves to itself.\<close>

lemma canon_structural:
  "lookup fs (cur @ rest) = Some n \<Longrightarrow> link_target n = None \<or> rest = []
   \<Longrightarrow> canon cr k fs cur rest = Some (cur @ rest)"
proof (induction rest arbitrary: cur)
  case Nil
  show ?case by simp
next
  case (Cons x rest)
  from Cons.prems(1) obtain es where d: "lookup fs cur = Some (Dir es)"
    and l: "lookup (Dir es) (x # rest) = Some n"
    by (rule lookup_below_is_Dir)
  from l obtain c where m: "map_of es x = Some c" and lc: "lookup c rest = Some n"
    by (auto split: option.splits)
  have nl: "link_target c = None"
  proof (cases "link_target c")
    case None
    then show ?thesis .
  next
    case (Some t)
    from lookup_through_link [OF Some lc] have "n = c" by simp
    with Some Cons.prems(2) show ?thesis by simp
  qed
  have "lookup fs ((cur @ [x]) @ rest) = Some n" using Cons.prems(1) by simp
  from Cons.IH [OF this] Cons.prems(2) nl lc
  have "canon cr k fs (cur @ [x]) rest = Some ((cur @ [x]) @ rest)"
    by (cases "rest = []") auto
  with d m nl show ?case by simp
qed

lemma realpath_structural:
  "lookup fs p = Some n \<Longrightarrow> link_target n = None \<Longrightarrow> realpath fs p = Some p"
  using canon_structural [of fs "[]" p n False 40] by (simp add: realpath_def)

lemma stat_structural:
  "lookup fs p = Some n \<Longrightarrow> link_target n = None \<Longrightarrow> stat fs p = Some n"
  by (simp add: stat_def realpath_structural)

text \<open>A path that resolves has a parent that resolves to a directory holding its last
  component.\<close>

lemma canon_snoc_aux:
  "canon cr k fs cur full = Some c \<Longrightarrow> \<not> cr \<Longrightarrow> full = rest @ [x]
   \<Longrightarrow> \<exists>d es n. canon cr k fs cur rest = Some d \<and> lookup fs d = Some (Dir es)
                \<and> map_of es x = Some n"
proof (induction cr k fs cur full arbitrary: rest rule: canon.induct)
  case (1 cr k fs cur)
  then show ?case by simp
next
  case (2 cr k fs cur y ys)
  from "2.prems"(1) obtain es where d: "lookup fs cur = Some (Dir es)"
    by (auto split: option.splits node.splits)
  from "2.prems"(1,2) d obtain ch where m: "map_of es y = Some ch"
    by (auto split: option.splits)
  show ?case
  proof (cases rest)
    case Nil
    with "2.prems"(3) have "y = x" by simp
    with Nil d m show ?thesis by simp
  next
    case (Cons z zs)
    with "2.prems"(3) have yz: "y = z" and ys: "ys = zs @ [x]" by simp_all
    show ?thesis
    proof (cases "link_target ch")
      case None
      with "2.prems"(1) d m have "canon cr k fs (cur @ [y]) ys = Some c" by simp
      from "2.IH"(1) [OF d refl m None this "2.prems"(2) ys]
      show ?thesis using Cons d m None yz by simp
    next
      case (Some t)
      with "2.prems"(1) d m obtain k' where k: "k = Suc k'"
        and c: "canon cr k' fs [] (t @ ys) = Some c"
        by (auto split: nat.splits)
      have "t @ ys = (t @ zs) @ [x]" using ys by simp
      from "2.IH"(2) [OF d refl m Some k c "2.prems"(2) this]
      show ?thesis using Cons d m Some yz k by simp
    qed
  qed
qed

lemma stat_snoc:
  assumes "stat fs (p @ [x]) = Some c"
  obtains es n where "stat fs p = Some (Dir es)" and "map_of es x = Some n"
proof -
  from assms obtain e where "canon False 40 fs [] (p @ [x]) = Some e"
    by (auto simp: stat_def realpath_def split: option.splits)
  from canon_snoc_aux [OF this, of p x] obtain d es n
    where "canon False 40 fs [] p = Some d" and "lookup fs d = Some (Dir es)"
      and "map_of es x = Some n"
    by auto
  then have "stat fs p = Some (Dir es)" by (simp add: stat_def realpath_def)
  with \<open>map_of es x = Some n\<close> that show ?thesis by blast
qed

lemma exists_parent_isdir: "exists fs (p @ [x]) \<Longrightarrow> isdir fs p"
proof -
  assume "exists fs (p @ [x])"
  then obtain c where "stat fs (p @ [x]) = Some c" by (auto simp: exists_def)
  then obtain es n where "stat fs p = Some (Dir es)" by (rule stat_snoc)
  then show ?thesis by (simp add: isdir_def is_dir_node_def)
qed

subsection \<open>Discovery\<close>

lemma walk_entries_subset:
  "(x, c) \<in> set es \<Longrightarrow> set (walk_node fs (p @ [x]) c) \<subseteq> set (walk_entries fs p es)"
  by (induction es) auto

lemma walk_node_finds_file:
  "lookup fs (p @ q @ [f]) = Some (File d) \<Longrightarrow> lookup fs p = Some n
   \<Longrightarrow> \<exists>dirnames filenames. (p @ q, dirnames, filenames) \<in> set (walk_node fs p n)
          \<and> f \<in> set filenames"
proof (induction q arbitrary: n p)
  case Nil
  from Nil.prems(1) have l: "lookup fs (p @ [f]) = Some (File d)" by simp
  then obtain es where e: "lookup fs p = Some (Dir es)"
    and m: "lookup (Dir es) [f] = Some (File d)"
    by (rule lookup_below_is_Dir)
  from m have "map_of es f = Some (File d)" by (auto split: option.splits)
  then have "(f, File d) \<in> set es" by (rule map_of_SomeD)
  then have "f \<in> set (map fst es)" by force
  moreover have "\<not> isdir fs (p @ [f])"
    using stat_structural [OF l] by (simp add: isdir_def is_dir_node_def)
  ultimately have "f \<in> set (filenames_of fs p es)" by (simp add: filenames_of_def)
  with e Nil.prems(2) show ?case by auto
next
  case (Cons x q)
  from Cons.prems(1) have "lookup fs (p @ x # q @ [f]) = Some (File d)" by simp
  then obtain es where e: "lookup fs p = Some (Dir es)"
    and m: "lookup (Dir es) (x # q @ [f]) = Some (File d)"
    by (rule lookup_below_is_Dir)
  from m obtain c where mc: "map_of es x = Some c" by (auto split: option.splits)
  with e have lc: "lookup fs (p @ [x]) = Some c" by (simp add: lookup_append)
  have "lookup fs ((p @ [x]) @ q @ [f]) = Some (File d)" using Cons.prems(1) by simp
  from Cons.IH [OF this lc] obtain dirnames filenames
    where w: "((p @ [x]) @ q, dirnames, filenames) \<in> set (walk_node fs (p @ [x]) c)"
      and f: "f \<in> set filenames"
    by blast
  from mc have "(x, c) \<in> set es" by (rule map_of_SomeD)
  from walk_entries_subset [OF this] w
  have "(p @ x # q, dirnames, filenames) \<in> set (walk_entries fs p es)" by auto
  with e Cons.prems(2) f show ?case by auto
qed

lemma any_isc_iff:
  "any_isc fs d \<longleftrightarrow> (\<exists>dirpath dirnames filenames f.
       (dirpath, dirnames, filenames) \<in> set (walk fs d) \<and> f \<in> set filenames \<and> is_isc f)"
  by (auto simp: any_isc_def list_ex_iff)

lemma file_below_any_isc:
  assumes "lookup fs (root @ q @ [f]) = Some (File d)" and "is_isc f"
  shows "isdir fs root \<and> any_isc fs root"
proof -
  from assms(1) have "lookup fs (root @ (q @ [f])) = Some (File d)" by simp
  then obtain n where r: "lookup fs root = Some n" and l: "lookup n (q @ [f]) = Some (File d)"
    by (auto simp: lookup_append split: option.splits)
  from l obtain es where n: "n = Dir es" by (cases n; cases q) auto
  from r n have st: "stat fs root = Some (Dir es)" by (simp add: stat_structural)
  then have w: "walk fs root = walk_node fs root (Dir es)" by (simp add: walk_def)
  from walk_node_finds_file [OF assms(1) r] obtain dirnames filenames
    where e: "(root @ q, dirnames, filenames) \<in> set (walk_node fs root n)"
      and f: "f \<in> set filenames"
    by blast
  from e w n have "(root @ q, dirnames, filenames) \<in> set (walk fs root)" by simp
  with f assms(2) have "any_isc fs root" by (auto simp: any_isc_iff)
  with st show ?thesis by (simp add: isdir_def is_dir_node_def)
qed

lemma find_root_looks_like_sectorfile:
  assumes "isdir (fsys s) root"
    and "isdir (fsys s) (root @ [''Include'']) \<or> any_isc (fsys s) root"
  shows "find_sectorfile_dir root acc s = (Inr root, s)"
  using assms by (simp add: find_sectorfile_dir_def)

lemma isdir_child_walk:
  assumes "isdir fs (root @ [x])"
  shows "\<exists>dirnames filenames rest. walk fs root = (root, dirnames, filenames) # rest
            \<and> x \<in> set dirnames"
proof -
  from assms obtain c where "stat fs (root @ [x]) = Some c"
    by (auto simp: isdir_def is_dir_node_def split: option.splits)
  then obtain es n where r: "stat fs root = Some (Dir es)" and m: "map_of es x = Some n"
    by (rule stat_snoc)
  from m have "(x, n) \<in> set es" by (rule map_of_SomeD)
  then have "x \<in> set (map fst es)" by force
  with assms have "x \<in> set (dirnames_of fs root es)" by (simp add: dirnames_of_def)
  with r show ?thesis by (simp add: walk_def)
qed

lemma walk_loop_None:
  "(\<forall>(dirpath, dirnames, filenames) \<in> set w.
       ''Include'' \<notin> set dirnames \<and> (\<forall>f \<in> set filenames. \<not> is_isc f))
   \<Longrightarrow> walk_loop w = None"
  by (induction w rule: walk_loop.induct) (auto simp: list_ex_iff)

lemma named_loop_None:
  "(\<forall>n \<in> set ns. \<not> isdir fs (root @ [n])) \<Longrightarrow> named_loop fs root acc ns = None"
  by (induction ns) (auto simp: Let_def)

lemma named_loop_first:
  assumes "\<forall>m \<in> set pre. \<not> isdir fs (root @ [m])"
    and "isdir fs (root @ [n])"
    and "isdir fs (root @ [n] @ [''Include'']) \<or> any_isc fs (root @ [n])"
  shows "named_loop fs root acc (pre @ n # post) = Some (root @ [n], False)"
  using assms by (induction pre) (auto simp: Let_def)

text \<open>
  Claim C6. When no conventional name under \<open>root\<close> is a directory and the walk of \<open>root\<close>
  meets no \<^verbatim>\<open>Include\<close> directory and no file whose name ends in \<^verbatim>\<open>.isc\<close>
  (files ending in \<^verbatim>\<open>.clr\<close> do not matter to discovery, so the claim's hypothesis
  is more than is needed), \<open>find_sectorfile_dir\<close> raises \<open>FileNotFoundError\<close>, and \<open>run\<close>
  logs it as an unhandled error and returns 10, not 2 or 3.
\<close>

theorem discovery_not_found:
  assumes "aurora_root_of aurora = root"
    and "\<forall>n \<in> set names. \<not> isdir (fsys s) (root @ [n])"
    and "\<forall>(dirpath, dirnames, filenames) \<in> set (walk (fsys s) root).
           ''Include'' \<notin> set dirnames \<and> (\<forall>f \<in> set filenames. \<not> is_isc f)"
  shows "find_sectorfile_dir root acc s = (Inl (FileNotFoundError root), s)
     \<and> run perm hp aurora repo force dry_run debug s
         = (10, log (Unhandled_error (FileNotFoundError root)) (log (Detecting root) s))"
proof -
  have ni: "\<not> isdir (fsys s) (root @ [''Include''])"
  proof
    assume "isdir (fsys s) (root @ [''Include''])"
    from isdir_child_walk [OF this] assms(3) show False by auto
  qed
  have na: "\<not> any_isc (fsys s) root"
    using assms(3) unfolding any_isc_iff by blast
  have f: "\<And>s'. fsys s' = fsys s \<Longrightarrow>
             find_sectorfile_dir root acc s' = (Inl (FileNotFoundError root), s')"
    using ni na named_loop_None [OF assms(2)] walk_loop_None [OF assms(3)]
    by (simp add: find_sectorfile_dir_def)
  have f': "\<And>s'. fsys s' = fsys s \<Longrightarrow>
             find_sectorfile_dir root True s' = (Inl (FileNotFoundError root), s')"
    using ni na named_loop_None [OF assms(2)] walk_loop_None [OF assms(3)]
    by (simp add: find_sectorfile_dir_def)
  have "fst (find_sectorfile_dir (aurora_root_of aurora) True s) = Inl (FileNotFoundError root)"
    using f' [of s] assms(1) by simp
  from run_discovery_fails [OF this, of perm hp repo force dry_run debug]
  show ?thesis using f [of s] f' [of "log (Detecting root) s"] assms(1) by simp
qed

theorem discovery_not_found_witness:
  "aurora_root_of [''aurora'', ''Aurora.EXE''] = [''aurora'']
   \<and> walk (fsys (init bare_fs)) [''aurora'']
        = [([''aurora''], [], [''Aurora.EXE'', ''notes.txt''])]
   \<and> find_sectorfile_dir [''aurora''] True (init bare_fs)
        = (Inl (FileNotFoundError [''aurora'']), init bare_fs)
   \<and> fst (run allow_all True [''aurora'', ''Aurora.EXE''] [''repo''] False False False
             (init bare_fs)) = 10"
proof -
  have h1: "aurora_root_of [''aurora'', ''Aurora.EXE''] = [''aurora'']"
    by code_simp
  have h2: "\<forall>n \<in> set names. \<not> isdir (fsys (init bare_fs)) ([''aurora''] @ [n])"
    by code_simp
  have h3: "\<forall>(dirpath, dirnames, filenames) \<in> set (walk (fsys (init bare_fs)) [''aurora'']).
           ''Include'' \<notin> set dirnames \<and> (\<forall>f \<in> set filenames. \<not> is_isc f)"
    by code_simp
  from discovery_not_found [OF h1 h2 h3, where acc = True and perm = allow_all and hp = True
      and repo = "[''repo'']" and force = False and dry_run = False and debug = False]
  have "find_sectorfile_dir [''aurora''] True (init bare_fs)
          = (Inl (FileNotFoundError [''aurora'']), init bare_fs)
        \<and> fst (run allow_all True [''aurora'', ''Aurora.EXE''] [''repo''] False False False
                 (init bare_fs)) = 10"
    by simp
  moreover have "walk (fsys (init bare_fs)) [''aurora'']
        = [([''aurora''], [], [''Aurora.EXE'', ''notes.txt''])]"
    by code_simp
  ultimately show ?thesis using h1 by blast
qed

text \<open>
  Claim C4, as stated, fails: a root that has its own \<^verbatim>\<open>Include\<close> directory is returned
  itself, although \<^verbatim>\<open>SectorFiles/Include\<close> is there.
\<close>

theorem find_named_dir_counterexample:
  "isdir both_include_fs [''aurora'', ''SectorFiles'', ''Include'']
   \<and> find_sectorfile_dir [''aurora''] True (init both_include_fs)
       = (Inr [''aurora''], init both_include_fs)"
  by code_simp

text \<open>
  Claim C4, amended. When \<open>root\<close> has no \<^verbatim>\<open>Include\<close> directory of its own and no file
  ending in \<^verbatim>\<open>.isc\<close> anywhere beneath it, and \<open>n\<close> is the first of the conventional names
  that is a directory under \<open>root\<close>, and \<open>root/n\<close> holds the directory \<^verbatim>\<open>Include\<close>, then
  \<open>find_sectorfile_dir\<close> returns \<open>root/n\<close> (and logs nothing).
\<close>

theorem find_returns_named_dir:
  assumes "names = pre @ n # post"
    and "\<forall>m \<in> set pre. \<not> isdir (fsys s) (root @ [m])"
    and "isdir (fsys s) (root @ [n])"
    and "isdir (fsys s) (root @ [n] @ [''Include''])"
    and "\<not> isdir (fsys s) (root @ [''Include''])"
    and "\<not> any_isc (fsys s) root"
  shows "find_sectorfile_dir root acc s = (Inr (root @ [n]), s)"
  using assms(5,6) named_loop_first [OF assms(2,3), of acc post] assms(4)
  unfolding find_sectorfile_dir_def assms(1) by simp

theorem find_returns_named_dir_witness:
  "names = [] @ ''SectorFiles'' # [''Sectorfile'', ''SectorFile'', ''SectorFile-MAIN'']
   \<and> isdir (fsys (init example_fs)) ([''aurora''] @ [''SectorFiles''])
   \<and> isdir (fsys (init example_fs)) ([''aurora''] @ [''SectorFiles''] @ [''Include''])
   \<and> \<not> isdir (fsys (init example_fs)) ([''aurora''] @ [''Include''])
   \<and> \<not> any_isc (fsys (init example_fs)) [''aurora'']
   \<and> find_sectorfile_dir [''aurora''] True (init example_fs)
        = (Inr [''aurora'', ''SectorFiles''], init example_fs)"
proof -
  have h1: "names = [] @ ''SectorFiles'' # [''Sectorfile'', ''SectorFile'', ''SectorFile-MAIN'']"
    by (simp add: names_def)
  have h2: "\<forall>m \<in> set []. \<not> isdir (fsys (init example_fs)) ([''aurora''] @ [m])"
    by simp
  have h3: "isdir (fsys (init example_fs)) ([''aurora''] @ [''SectorFiles''])"
    by code_simp
  have h4: "isdir (fsys (init example_fs)) ([''aurora''] @ [''SectorFiles''] @ [''Include''])"
    by code_simp
  have h5: "\<not> isdir (fsys (init example_fs)) ([''aurora''] @ [''Include''])"
    by code_simp
  have h6: "\<not> any_isc (fsys (init example_fs)) [''aurora'']"
    by code_simp
  from find_returns_named_dir [OF h1 h2 h3 h4 h5 h6, of True]
  have "find_sectorfile_dir [''aurora''] True (init example_fs)
          = (Inr [''aurora'', ''SectorFiles''], init example_fs)"
    by simp
  with h1 h3 h4 h5 h6 show ?thesis by blast
qed

text \<open>
  Claim C3, as stated, fails: a root whose only reference file ends in \<^verbatim>\<open>.clr\<close> is not
  returned; discovery finds nothing at all.
\<close>

theorem find_clr_counterexample:
  "lookup clr_only_fs ([''aurora''] @ [''data''] @ [''colours.clr'']) = Some (File (1, ''clr''))
   \<and> lower (snd (splitext ''colours.clr'')) \<in> FILES_EXTS_TO_LINK_ONCE
   \<and> find_sectorfile_dir [''aurora''] True (init clr_only_fs)
       = (Inl (FileNotFoundError [''aurora'']), init clr_only_fs)"
  by code_simp

text \<open>
  Claim C3, amended. When a file whose name ends in \<^verbatim>\<open>.isc\<close>, in any letter case, lies
  anywhere beneath the directory \<open>root\<close>, \<open>find_sectorfile_dir\<close> returns \<open>root\<close> unchanged
  by its first test. Discovery does not look for \<^verbatim>\<open>.clr\<close>.
\<close>

theorem find_returns_root_isc:
  assumes "lookup (fsys s) (root @ q @ [f]) = Some (File d)" and "is_isc f"
  shows "find_sectorfile_dir root acc s = (Inr root, s)"
  using file_below_any_isc [OF assms] by (simp add: find_root_looks_like_sectorfile)

theorem find_returns_root_isc_witness:
  "lookup (fsys (init isc_below_fs)) ([''aurora''] @ [''data''] @ [''Colombia.ISC''])
     = Some (File (1, ''isc''))
   \<and> is_isc ''Colombia.ISC''
   \<and> find_sectorfile_dir [''aurora''] True (init isc_below_fs)
       = (Inr [''aurora''], init isc_below_fs)"
proof -
  have h1: "lookup (fsys (init isc_below_fs)) ([''aurora''] @ [''data''] @ [''Colombia.ISC''])
     = Some (File (1, ''isc''))"
    by code_simp
  have h2: "is_isc ''Colombia.ISC''"
    by code_simp
  from find_returns_root_isc [OF h1 h2, of True] h1 h2 show ?thesis by blast
qed

subsection \<open>Letter case of the extensions\<close>

text \<open>
  Claim C9, as stated, fails: \<^verbatim>\<open>COLOURS.Clr\<close> is selected by the file linker, but the
  content test of discovery does not recognize it, and discovery on a root that holds
  only this file finds nothing.
\<close>

theorem extension_any_case_counterexample:
  "lower (snd (splitext ''COLOURS.Clr'')) \<in> FILES_EXTS_TO_LINK_ONCE
   \<and> \<not> is_isc ''COLOURS.Clr''
   \<and> find_sectorfile_dir [''aurora''] True (init mixed_case_fs)
       = (Inl (FileNotFoundError [''aurora'']), init mixed_case_fs)"
  by code_simp

text \<open>
  Claim C9, amended. Each use site ignores letter case for the extensions it knows. The
  file linker selects a name \<open>stem @ ext\<close> when \<open>ext\<close> is \<^verbatim>\<open>.isc\<close> or \<^verbatim>\<open>.clr\<close> in any
  letter case (the stem being a file name with a character other than a dot): such a
  regular file reaches the link attempt and is counted. The content tests of discovery
  recognize the name exactly when \<open>ext\<close> is \<^verbatim>\<open>.isc\<close> in any letter case, and then a root
  with the file beneath it is returned; \<^verbatim>\<open>.clr\<close> is not recognized there in any case.
\<close>

theorem extension_any_case:
  assumes "lower ext \<in> FILES_EXTS_TO_LINK_ONCE"
    and "\<exists>ch \<in> set stem. ch \<noteq> CHR ''.''"
    and "CHR ''/'' \<notin> set stem" and "CHR 0x5C \<notin> set stem"
  shows "lower (snd (splitext (stem @ ext))) \<in> FILES_EXTS_TO_LINK_ONCE
     \<and> (isfile (fsys s) (src_main @ [stem @ ext])
          \<and> (force \<or> \<not> exists (fsys s) (sectorfile_dir @ [stem @ ext]))
         \<longrightarrow> (\<exists>s'. \<forall>rest count.
                 link_loop perm src_main sectorfile_dir force ((stem @ ext) # rest) count s
                   = link_loop perm src_main sectorfile_dir force rest (Suc count) s'))
     \<and> (is_isc (stem @ ext) \<longleftrightarrow> lower ext = ''.isc'')
     \<and> (lower ext = ''.isc'' \<and> lookup (fsys s) (root @ q @ [stem @ ext]) = Some (File d)
         \<longrightarrow> find_sectorfile_dir root acc s = (Inr root, s))"
proof -
  have sp: "splitext (stem @ ext) = (stem, ext)"
    using assms by (rule splitext_recognized)
  then have a: "lower (snd (splitext (stem @ ext))) \<in> FILES_EXTS_TO_LINK_ONCE"
    using assms(1) by simp
  from assms(1) obtain e where "ext = CHR ''.'' # e" and "length e = 3"
    by (rule recognized_ext_shape)
  then have "length ext = 4" by simp
  then have c: "is_isc (stem @ ext) \<longleftrightarrow> lower ext = ''.isc''"
    by (rule is_isc_ext)
  have b: "isfile (fsys s) (src_main @ [stem @ ext])
          \<and> (force \<or> \<not> exists (fsys s) (sectorfile_dir @ [stem @ ext]))
         \<longrightarrow> (\<exists>s'. \<forall>rest count.
                 link_loop perm src_main sectorfile_dir force ((stem @ ext) # rest) count s
                   = link_loop perm src_main sectorfile_dir force rest (Suc count) s')"
    using link_loop_attempt [of s src_main "stem @ ext" force sectorfile_dir perm] a by blast
  have d: "lower ext = ''.isc'' \<and> lookup (fsys s) (root @ q @ [stem @ ext]) = Some (File d)
         \<longrightarrow> find_sectorfile_dir root acc s = (Inr root, s)"
  proof
    assume h: "lower ext = ''.isc'' \<and> lookup (fsys s) (root @ q @ [stem @ ext]) = Some (File d)"
    with c have "is_isc (stem @ ext)" by simp
    with h file_below_any_isc [of "fsys s" root q "stem @ ext" d]
    show "find_sectorfile_dir root acc s = (Inr root, s)"
      by (simp add: find_root_looks_like_sectorfile)
  qed
  from a b c d show ?thesis by blast
qed

theorem extension_any_case_witness:
  "lower (snd (splitext ''Colombia.ISC'')) \<in> FILES_EXTS_TO_LINK_ONCE
   \<and> is_isc ''Colombia.ISC''
   \<and> find_sectorfile_dir [''aurora''] True (init isc_below_fs)
       = (Inr [''aurora''], init isc_below_fs)"
proof -
  have h1: "lower ''.ISC'' \<in> FILES_EXTS_TO_LINK_ONCE" by code_simp
  have h2: "\<exists>ch \<in> set ''Colombia''. ch \<noteq> CHR ''.''" by code_simp
  have h3: "CHR ''/'' \<notin> set ''Colombia''" by code_simp
  have h4: "CHR 0x5C \<notin> set ''Colombia''" by code_simp
  have h5: "lower ''.ISC'' = ''.isc''" by code_simp
  have h6: "lookup (fsys (init isc_below_fs)) ([''aurora''] @ [''data''] @ [''Colombia'' @ ''.ISC''])
              = Some (File (1, ''isc''))" by code_simp
  from extension_any_case [OF h1 h2 h3 h4, where s = "init isc_below_fs" and root = "[''aurora'']"
      and q = "[''data'']" and d = "(1, ''isc'')" and acc = True] h5 h6
  show ?thesis by simp
qed

subsection \<open>What a run may change\<close>


lemma good_refl [simp]: "good sf s s"
  by (simp add: good_def)


lemma good_log [simp]: "good sf s (log m s') = good sf s s'"
  by (simp add: good_def log_def)

lemma good_report [simp]: "good sf s (report hp v s') = good sf s s'"
  by (simp add: good_def report_def)

lemma good_log_left [simp]: "good sf (log m s) s' = good sf s s'"
  by (simp add: good_def log_def)

lemma good_report_left [simp]: "good sf (report hp v s) s' = good sf s s'"
  by (simp add: good_def report_def)

lemma good_find_left [simp]:
  "good sf (snd (find_sectorfile_dir root acc s)) s' = good sf s s'"
  by (simp add: good_def)

lemma good_find_right [simp]:
  "good sf s (snd (find_sectorfile_dir root acc s')) = good sf s s'"
  by (simp add: good_def)


lemma beneath_child [simp]: "beneath sf (sf @ [name])"
  by (simp add: beneath_def)

lemma beneath_grandchild [simp]: "beneath sf (sf @ [a, b])"
  by (simp add: beneath_def)









lemma incomparable_Nil [simp]: "\<not> incomparable [] q" "\<not> incomparable p []"
  by (simp_all add: incomparable_def)














subsection \<open>An alias that is there already\<close>

text \<open>Making a new entry leaves every path that resolved before resolving as before.\<close>

lemma same_kind_refl [simp]: "same_kind m m"
  by (cases m) (simp_all add: same_kind_def)

lemma same_kind_link_target: "same_kind m m' \<Longrightarrow> link_target m' = link_target m"
  by (cases m) (auto simp: same_kind_def)

lemma same_kind_Dir: "same_kind (Dir es) m' \<Longrightarrow> \<exists>es'. m' = Dir es'"
  by (simp add: same_kind_def)

lemma lookup_put_new:
  "lookup fs e = None \<Longrightarrow> lookup fs q = Some m
   \<Longrightarrow> \<exists>m'. lookup (put e (Some n) fs) q = Some m' \<and> same_kind m m'"
proof (induction e "Some n" fs arbitrary: q m rule: put.induct)
  case (1 n')
  then show ?case by simp
next
  case (2 x es)
  from "2.prems"(1) have nx: "map_of es x = None" by (simp split: option.splits)
  show ?case
  proof (cases q)
    case Nil
    with "2.prems"(2) show ?thesis by (auto simp: same_kind_def)
  next
    case (Cons y q')
    with "2.prems"(2) nx have "x \<noteq> y" by (auto split: option.splits)
    with Cons "2.prems"(2) show ?thesis by (simp add: update_conv')
  qed
next
  case (3 x y p es)
  show ?case
  proof (cases "map_of es x")
    case None
    with "3.prems"(2) show ?thesis by auto
  next
    case (Some c)
    with "3.prems"(1) have lc: "lookup c (y # p) = None" by simp
    show ?thesis
    proof (cases q)
      case Nil
      with "3.prems"(2) Some show ?thesis by (auto simp: same_kind_def)
    next
      case (Cons z q')
      show ?thesis
      proof (cases "x = z")
        case False
        with Cons Some "3.prems"(2) show ?thesis by (simp add: update_conv')
      next
        case True
        with Cons Some "3.prems"(2) have "lookup c q' = Some m" by simp
        from "3.hyps" [OF Some lc this] True Cons Some show ?thesis
          by (simp add: update_conv')
      qed
    qed
  qed
next
  case (4 x p d)
  then show ?case by auto
next
  case (5 x p t)
  then show ?case by auto
next
  case (6 x p t)
  then show ?case by auto
qed

lemma canon_put_new:
  "lookup fs e = None \<Longrightarrow> canon cr k fs cur rest = Some c \<Longrightarrow> \<not> cr
   \<Longrightarrow> canon cr k (put e (Some n) fs) cur rest = Some c"
proof (induction cr k fs cur rest rule: canon.induct)
  case (1 cr k fs cur)
  then show ?case by simp
next
  case (2 cr k fs cur x rest)
  let ?fs' = "put e (Some n) fs"
  from "2.prems"(2) obtain es where d: "lookup fs cur = Some (Dir es)"
    by (auto split: option.splits node.splits)
  from "2.prems"(2,3) d obtain ch where m: "map_of es x = Some ch"
    by (auto split: option.splits)
  from lookup_put_new [OF "2.prems"(1) d] obtain es' where d': "lookup ?fs' cur = Some (Dir es')"
    by (auto dest: same_kind_Dir)
  have "lookup fs (cur @ [x]) = Some ch" using d m by (simp add: lookup_append)
  from lookup_put_new [OF "2.prems"(1) this] obtain ch'
    where l': "lookup ?fs' (cur @ [x]) = Some ch'" and sk: "same_kind ch ch'"
    by blast
  from l' d' have m': "map_of es' x = Some ch'"
    by (simp add: lookup_append split: option.splits)
  from sk have lt: "link_target ch' = link_target ch" by (rule same_kind_link_target)
  show ?case
  proof (cases "link_target ch")
    case None
    with "2.prems"(2) d m have "canon cr k fs (cur @ [x]) rest = Some c" by simp
    from "2.IH"(1) [OF d refl m None "2.prems"(1) this "2.prems"(3)]
    show ?thesis using d' m' lt None by simp
  next
    case (Some t)
    with "2.prems"(2) d m obtain k' where k: "k = Suc k'"
      and c: "canon cr k' fs [] (t @ rest) = Some c"
      by (auto split: nat.splits)
    from "2.IH"(2) [OF d refl m Some k "2.prems"(1) c "2.prems"(3)]
    show ?thesis using d' m' lt Some k by simp
  qed
qed

lemma exists_put_new:
  assumes "exists fs q" and "lookup fs e = None"
  shows "exists (put e (Some n) fs) q"
proof -
  from assms(1) obtain c m where r: "realpath fs q = Some c" and l: "lookup fs c = Some m"
    by (auto simp: exists_def stat_def split: option.splits)
  from r have "canon False 40 fs [] q = Some c" by (simp add: realpath_def)
  from canon_put_new [OF assms(2) this] have "realpath (put e (Some n) fs) q = Some c"
    by (simp add: realpath_def)
  moreover from lookup_put_new [OF assms(2) l] obtain m'
    where "lookup (put e (Some n) fs) c = Some m'" by blast
  ultimately show ?thesis by (simp add: exists_def stat_def)
qed

lemma create_exists:
  assumes "create fs p n = Some cs" and "exists fs q"
  shows "exists (apply_changes cs fs) q"
proof -
  from assms(1) obtain e where "entry fs p = Some e" and "lookup fs e = None"
    and "cs = [Put e (Some n)]"
    by (auto simp: create_def split: option.splits if_splits)
  with exists_put_new [OF assms(2), of e n] show ?thesis
    by (simp add: apply_changes_def)
qed

lemma os_call_mklink_j_exists:
  assumes "os_call perm (Mklink_J l t) s = (ok, s2)" and "exists (fsys s) q"
  shows "exists (fsys s2) q"
proof (cases "carried_out perm (length (trace s)) (fsys s) (Mklink_J l t)")
  case None
  with assms show ?thesis by (auto simp: os_call_def)
next
  case (Some fs')
  then obtain cs where "create (fsys s) l (Junction t) = Some cs"
    and "fs' = apply_changes cs (fsys s)"
    by (auto simp: carried_out_def effect_def split: if_splits option.splits)
  with create_exists [OF _ assms(2)] have "exists fs' q" by blast
  with Some assms(1) show ?thesis by (auto simp: os_call_def)
qed

lemma makedirs_existing:
  assumes "isdir (fsys s) p"
  shows "os_call perm (Makedirs p) s = (True, s\<lparr>trace := trace s @ [(Makedirs p, True)]\<rparr>)"
  using assms
  by (simp add: os_call_def carried_out_def unrefusable_def effect_def apply_changes_def)

lemma junction_loop_first_exists:
  assumes "exists (fsys s) (tgt @ [a])"
  shows "junction_loop perm conew tgt False (a # rest) created s
           = (Inl (FileExistsError (tgt @ [a])), s)"
  using assms by (simp add: Let_def)

lemma junction_loop_second_exists:
  assumes "\<not> exists (fsys s) (tgt @ [a])" and "exists (fsys s) (tgt @ [b])"
    and "os_call perm (Mklink_J (tgt @ [a]) conew) s = (ok, s2)"
  shows "junction_loop perm conew tgt False [a, b] [] s
           = (Inl (FileExistsError (tgt @ [b])),
              log (if ok then Junction_created (tgt @ [a]) conew
                   else Junction_error (tgt @ [a]) conew) s2)"
proof -
  from os_call_mklink_j_exists [OF assms(3,2)] have "exists (fsys s2) (tgt @ [b])" .
  with assms(1,3) show ?thesis
    by (cases ok) (simp_all add: Let_def make_dir_junction_def)
qed

text \<open>
  Claim C1, as stated, fails: with \<^verbatim>\<open>Include/COnew\<close> there already and \<open>force\<close> unset,
  the run returns 10; the second alias is not attempted and no file is linked.
\<close>

theorem existing_alias_counterexample:
  "exists alias_exists_fs [''aurora'', ''SectorFiles'', ''Include'', ''COnew'']
   \<and> run allow_all True [''aurora''] [''repo''] False False False (init alias_exists_fs)
       = (10, \<lparr>fsys = alias_exists_fs,
               trace = [(Makedirs [''aurora'', ''SectorFiles'', ''Include''], True),
                        (Makedirs [''aurora'', ''SectorFiles'', ''Include''], True)],
               logs = [Detecting [''aurora''], Sectorfile_root [''aurora'', ''SectorFiles''],
                       Target_include_dir [''aurora'', ''SectorFiles'', ''Include''],
                       Unhandled_error
                         (FileExistsError [''aurora'', ''SectorFiles'', ''Include'', ''COnew''])],
               progress = [- 1]\<rparr>)"
  by code_simp

text \<open>
  Claim C1, amended. When one of the two alias paths exists (as a directory, a file, or
  a link or junction that resolves) and \<open>force\<close> is unset, a run that gets past its checks
  returns 10: \<open>create_conew_junctions\<close> raises \<open>FileExistsError\<close> for the first alias that
  exists, the exception is not caught there but by the handler of \<open>run\<close>, which logs it
  as an unhandled error. The calls of the run are exactly the two \<^verbatim>\<open>os.makedirs\<close> of
  the destination \<^verbatim>\<open>Include\<close>, which succeed, and, when it is \<^verbatim>\<open>COnew_2\<close> that exists and
  not \<^verbatim>\<open>COnew\<close>, the one attempt to make the junction \<^verbatim>\<open>COnew\<close> before the failure; the
  filesystem changes by that junction only, if the operating system makes it. No
  removal, file link or copy is attempted.
\<close>

theorem existing_alias_stops_run:
  assumes "fst (find_sectorfile_dir (aurora_root_of aurora) True s) = Inr sf"
    and "src_main_of (fsys s) repo = Some src_main"
    and "isdir (fsys s) (src_main @ COnew_REL)"
    and "exists (fsys s) (sf @ [''Include'', ''COnew''])
         \<or> exists (fsys s) (sf @ [''Include'', ''COnew_2''])"
  shows "fst (run perm hp aurora repo False False debug s) = 10
     \<and> last (logs (snd (run perm hp aurora repo False False debug s)))
         = Unhandled_error
             (FileExistsError
                (if exists (fsys s) (sf @ [''Include'', ''COnew''])
                 then sf @ [''Include'', ''COnew''] else sf @ [''Include'', ''COnew_2'']))
     \<and> trace (snd (run perm hp aurora repo False False debug s))
         = trace s
           @ [(Makedirs (sf @ [''Include'']), True), (Makedirs (sf @ [''Include'']), True)]
           @ (if exists (fsys s) (sf @ [''Include'', ''COnew'']) then []
              else [(Mklink_J (sf @ [''Include'', ''COnew'']) (src_main @ COnew_REL),
                     carried_out perm (length (trace s) + 2) (fsys s)
                       (Mklink_J (sf @ [''Include'', ''COnew'']) (src_main @ COnew_REL))
                     \<noteq> None)])
     \<and> fsys (snd (run perm hp aurora repo False False debug s))
         = (if exists (fsys s) (sf @ [''Include'', ''COnew'']) then fsys s
            else case carried_out perm (length (trace s) + 2) (fsys s)
                        (Mklink_J (sf @ [''Include'', ''COnew'']) (src_main @ COnew_REL)) of
                   Some fs' \<Rightarrow> fs' | None \<Rightarrow> fsys s)"
proof -
  let ?tgt = "sf @ [''Include'']"
  let ?conew = "src_main @ COnew_REL"
  let ?A = "exists (fsys s) (sf @ [''Include'', ''COnew''])"
  let ?s4 = "log (Target_include_dir ?tgt)
               (log (Sectorfile_root sf)
                  (snd (find_sectorfile_dir (aurora_root_of aurora) True
                          (log (Detecting (aurora_root_of aurora)) s))))"
  have f4: "fsys ?s4 = fsys s" and t4: "trace ?s4 = trace s" by simp_all
  from assms(4) have d: "isdir (fsys s) ?tgt"
    using exists_parent_isdir [of "fsys s" ?tgt "''COnew''"]
      exists_parent_isdir [of "fsys s" ?tgt "''COnew_2''"]
    by auto
  define s5 where "s5 = ?s4\<lparr>trace := trace ?s4 @ [(Makedirs ?tgt, True)]\<rparr>"
  have m: "os_call perm (Makedirs ?tgt) ?s4 = (True, s5)"
    unfolding s5_def using d f4 by (intro makedirs_existing) simp
  have f5: "fsys s5 = fsys s" and t5: "trace s5 = trace s @ [(Makedirs ?tgt, True)]"
    by (simp_all add: s5_def)
  let ?s5' = "report hp (- 1) s5"
  define s6 where "s6 = ?s5'\<lparr>trace := trace ?s5' @ [(Makedirs ?tgt, True)]\<rparr>"
  have m2: "os_call perm (Makedirs ?tgt) ?s5' = (True, s6)"
    unfolding s6_def using d f5 by (intro makedirs_existing) simp
  have f6: "fsys s6 = fsys s"
    and t6: "trace s6 = trace s @ [(Makedirs ?tgt, True), (Makedirs ?tgt, True)]"
    using f5 t5 by (simp_all add: s6_def)
  note ex = run_execute [OF assms(1-3), of perm hp False debug]
  have cj: "create_conew_junctions perm ?conew ?tgt False ?s5'
              = junction_loop perm ?conew ?tgt False [''COnew'', ''COnew_2''] [] s6"
    using m2 by (simp add: create_conew_junctions_def del: junction_loop.simps)
  show ?thesis
  proof (cases ?A)
    case True
    then have "exists (fsys s6) (?tgt @ [''COnew''])" using f6 by simp
    from junction_loop_first_exists [OF this]
    have "junction_loop perm ?conew ?tgt False [''COnew'', ''COnew_2''] [] s6
            = (Inl (FileExistsError (?tgt @ [''COnew''])), s6)" .
    with m cj have r: "run perm hp aurora repo False False debug s
        = (10, log (Unhandled_error (FileExistsError (?tgt @ [''COnew'']))) s6)"
      by (simp add: ex del: junction_loop.simps)
    show ?thesis
      unfolding r using True f6 t6 by (simp add: log_def)
  next
    case False
    with assms(4) have B: "exists (fsys s) (sf @ [''Include'', ''COnew_2''])" by simp
    obtain ok s7 where c: "os_call perm (Mklink_J (?tgt @ [''COnew'']) ?conew) s6 = (ok, s7)"
      by (cases "os_call perm (Mklink_J (?tgt @ [''COnew'']) ?conew) s6")
    have len: "length (trace s6) = length (trace s) + 2" using t6 by simp
    note oc = os_call_result [OF c, unfolded f6 len]
    have n6: "\<not> exists (fsys s6) (?tgt @ [''COnew''])" using False f6 by simp
    have b6: "exists (fsys s6) (?tgt @ [''COnew_2''])" using B f6 by simp
    from junction_loop_second_exists [OF n6 b6 c]
    have "junction_loop perm ?conew ?tgt False [''COnew'', ''COnew_2''] [] s6
           = (Inl (FileExistsError (?tgt @ [''COnew_2''])),
              log (if ok then Junction_created (?tgt @ [''COnew'']) ?conew
                   else Junction_error (?tgt @ [''COnew'']) ?conew) s7)" .
    with m cj have r: "run perm hp aurora repo False False debug s
        = (10, log (Unhandled_error (FileExistsError (?tgt @ [''COnew_2''])))
                 (log (if ok then Junction_created (?tgt @ [''COnew'']) ?conew
                       else Junction_error (?tgt @ [''COnew'']) ?conew) s7))"
      by (simp add: ex del: junction_loop.simps)
    show ?thesis
      unfolding r using False oc t6 by (simp add: log_def)
  qed
qed

theorem existing_alias_stops_run_witness:
  "exists (fsys (init second_alias_fs))
      ([''aurora'', ''SectorFiles''] @ [''Include'', ''COnew_2''])
   \<and> \<not> exists (fsys (init second_alias_fs))
          ([''aurora'', ''SectorFiles''] @ [''Include'', ''COnew''])
   \<and> run allow_all True [''aurora''] [''repo''] False False False (init second_alias_fs)
       = (10, \<lparr>fsys =
                 Dir [(''aurora'',
                       Dir [(''SectorFiles'',
                             Dir [(''Include'',
                                   Dir [(''COnew_2'',
                                         Junction [''repo'', ''SectorFile-MAIN'',
                                                   ''Include'', ''COnew'']),
                                        (''COnew'',
                                         Junction [''repo'', ''SectorFile-MAIN'',
                                                   ''Include'', ''COnew''])])])]),
                      (''repo'',
                       Dir [(''SectorFile-MAIN'',
                             Dir [(''Include'',
                                   Dir [(''COnew'',
                                         Dir [(''airways.txt'', File (1, ''awy''))])]),
                                  (''colombia.isc'', File (2, ''isc''))])])],
               trace = [(Makedirs [''aurora'', ''SectorFiles'', ''Include''], True),
                        (Makedirs [''aurora'', ''SectorFiles'', ''Include''], True),
                        (Mklink_J [''aurora'', ''SectorFiles'', ''Include'', ''COnew'']
                           [''repo'', ''SectorFile-MAIN'', ''Include'', ''COnew''], True)],
               logs = [Detecting [''aurora''], Sectorfile_root [''aurora'', ''SectorFiles''],
                       Target_include_dir [''aurora'', ''SectorFiles'', ''Include''],
                       Junction_created [''aurora'', ''SectorFiles'', ''Include'', ''COnew'']
                         [''repo'', ''SectorFile-MAIN'', ''Include'', ''COnew''],
                       Unhandled_error
                         (FileExistsError [''aurora'', ''SectorFiles'', ''Include'', ''COnew_2''])],
               progress = [- 1]\<rparr>)"
proof -
  let ?s = "init second_alias_fs"
  have h1: "fst (find_sectorfile_dir (aurora_root_of [''aurora'']) True ?s)
              = Inr [''aurora'', ''SectorFiles'']"
    by code_simp
  have h2: "src_main_of (fsys ?s) [''repo''] = Some [''repo'', ''SectorFile-MAIN'']"
    by code_simp
  have h3: "isdir (fsys ?s) ([''repo'', ''SectorFile-MAIN''] @ COnew_REL)"
    by code_simp
  have h4: "exists (fsys ?s) ([''aurora'', ''SectorFiles''] @ [''Include'', ''COnew_2''])"
    by code_simp
  have h5: "\<not> exists (fsys ?s) ([''aurora'', ''SectorFiles''] @ [''Include'', ''COnew''])"
    by code_simp
  from h4 have h4': "exists (fsys ?s) ([''aurora'', ''SectorFiles''] @ [''Include'', ''COnew''])
      \<or> exists (fsys ?s) ([''aurora'', ''SectorFiles''] @ [''Include'', ''COnew_2''])"
    by simp
  from existing_alias_stops_run [OF h1 h2 h3 h4', of allow_all True False]
  have c: "fst (run allow_all True [''aurora''] [''repo''] False False False ?s) = 10"
    by blast
  have "snd (run allow_all True [''aurora''] [''repo''] False False False ?s)
       = \<lparr>fsys =
                 Dir [(''aurora'',
                       Dir [(''SectorFiles'',
                             Dir [(''Include'',
                                   Dir [(''COnew_2'',
                                         Junction [''repo'', ''SectorFile-MAIN'',
                                                   ''Include'', ''COnew'']),
                                        (''COnew'',
                                         Junction [''repo'', ''SectorFile-MAIN'',
                                                   ''Include'', ''COnew''])])])]),
                      (''repo'',
                       Dir [(''SectorFile-MAIN'',
                             Dir [(''Include'',
                                   Dir [(''COnew'',
                                         Dir [(''airways.txt'', File (1, ''awy''))])]),
                                  (''colombia.isc'', File (2, ''isc''))])])],
               trace = [(Makedirs [''aurora'', ''SectorFiles'', ''Include''], True),
                        (Makedirs [''aurora'', ''SectorFiles'', ''Include''], True),
                        (Mklink_J [''aurora'', ''SectorFiles'', ''Include'', ''COnew'']
                           [''repo'', ''SectorFile-MAIN'', ''Include'', ''COnew''], True)],
               logs = [Detecting [''aurora''], Sectorfile_root [''aurora'', ''SectorFiles''],
                       Target_include_dir [''aurora'', ''SectorFiles'', ''Include''],
                       Junction_created [''aurora'', ''SectorFiles'', ''Include'', ''COnew'']
                         [''repo'', ''SectorFile-MAIN'', ''Include'', ''COnew''],
                       Unhandled_error
                         (FileExistsError [''aurora'', ''SectorFiles'', ''Include'', ''COnew_2''])],
               progress = [- 1]\<rparr>"
    by code_simp
  with c h4 h5 show ?thesis by (metis prod.collapse)
qed

end
